theory Spec2Isabelle
  imports Complex_Main "HOL-Library.AList" "HOL-Library.Sublist"
begin

section \<open>JavaScript values\<close>

text \<open>
  The server (\<^verbatim>\<open>server.js\<close>, the variant with persistence to \<^verbatim>\<open>database.json\<close>)
  passes request bodies, executor payloads and results around as plain JavaScript
  objects. They are modelled as a datatype of JSON-like values. An object is an
  association list in insertion order; numbers are idealised as rationals (no rounding,
  no NaN inside a value).
\<close>

datatype jsval =
    JUndefined
  | JNull
  | JBool bool
  | JNum rat
  | JStr string
  | JArr "jsval list"
  | JObj "(string \<times> jsval) list"

text \<open>\<^verbatim>\<open>v?.k\<close> and, on a value that is not null or undefined, \<^verbatim>\<open>v.k\<close>, for the keys the
  server reads (none of them is a property of a string, an array or a number).\<close>

definition jget :: "string \<Rightarrow> jsval \<Rightarrow> jsval" where
  "jget k v =
     (case v of
        JObj kvs \<Rightarrow> (case map_of kvs k of Some x \<Rightarrow> x | None \<Rightarrow> JUndefined)
      | _ \<Rightarrow> JUndefined)"

text \<open>Truthiness, as \<^verbatim>\<open>!v\<close>, \<^verbatim>\<open>a || b\<close> and \<^verbatim>\<open>a && b\<close> test it.\<close>

definition truthy :: "jsval \<Rightarrow> bool" where
  "truthy v =
     (case v of
        JUndefined \<Rightarrow> False
      | JNull \<Rightarrow> False
      | JBool b \<Rightarrow> b
      | JNum n \<Rightarrow> n \<noteq> 0
      | JStr s \<Rightarrow> s \<noteq> []
      | JArr _ \<Rightarrow> True
      | JObj _ \<Rightarrow> True)"

definition js_or :: "jsval \<Rightarrow> jsval \<Rightarrow> jsval" where
  "js_or a b = (if truthy a then a else b)"

text \<open>Decimal rendering of a natural number, as string concatenation and template
  strings render an integer.\<close>

definition digit_char :: "nat \<Rightarrow> char" where
  "digit_char d = ''0123456789'' ! d"

function show_nat :: "nat \<Rightarrow> string" where
  "show_nat n = (if n < 10 then [digit_char n] else show_nat (n div 10) @ [digit_char (n mod 10)])"
  by pat_completeness auto
termination
  by (relation "measure id") auto

declare show_nat.simps [simp del]

text \<open>The own enumerable properties that \<^verbatim>\<open>{...v}\<close> copies.\<close>

definition own_props :: "jsval \<Rightarrow> (string \<times> jsval) list" where
  "own_props v =
     (case v of
        JObj kvs \<Rightarrow> kvs
      | JArr xs \<Rightarrow> zip (map show_nat [0..<length xs]) xs
      | JStr s \<Rightarrow> zip (map show_nat [0..<length s]) (map (\<lambda>c. JStr [c]) s)
      | _ \<Rightarrow> [])"

text \<open>\<^verbatim>\<open>{ ...acc, ...v }\<close>: each property of \<open>v\<close> is assigned in turn; an existing key
  keeps its place and takes the new value, a new key goes last.\<close>

definition spread :: "jsval \<Rightarrow> (string \<times> jsval) list \<Rightarrow> (string \<times> jsval) list" where
  "spread v acc = foldl (\<lambda>a (k, x). AList.update k x a) acc (own_props v)"

section \<open>CPU monitoring\<close>

text \<open>What \<^verbatim>\<open>pidusage(process.pid)\<close> resolves to: the CPU usage in percent (100 per
  busy core) and the resident memory in bytes. It is an input of the model.\<close>

record pidstats =
  cpu :: rat
  memory :: rat

record cpustats =
  cpuFraction :: rat
  cpuPercent :: rat
  cpuAvailable :: rat
  memoryGB :: rat

definition vCPU :: rat where
  "vCPU = 4"

definition cpuThreshold :: rat where
  "cpuThreshold = 85 / 100"

text \<open>\<^verbatim>\<open>Number(x.toFixed(2))\<close>, idealised as rounding to the nearest hundredth.\<close>

definition toFixed2 :: "rat \<Rightarrow> rat" where
  "toFixed2 x = of_int \<lfloor>x * 100 + 1 / 2\<rfloor> / 100"

definition getCpuStats :: "pidstats \<Rightarrow> cpustats" where
  "getCpuStats stats =
     (let fraction = cpu stats / (100 * vCPU);
          gb = memory stats / (1024 ^ 3)
      in \<lparr> cpuFraction = fraction,
           cpuPercent = cpu stats,
           cpuAvailable = max 0 (1 - fraction),
           memoryGB = toFixed2 gb \<rparr>)"

definition canProcessNow :: "pidstats \<Rightarrow> bool" where
  "canProcessNow stats = (cpuFraction (getCpuStats stats) < cpuThreshold)"

text \<open>The \<^verbatim>\<open>cpu: { percent, available, memoryGB }\<close> object of a response or a result.\<close>

definition cpu_json :: "cpustats \<Rightarrow> jsval" where
  "cpu_json c =
     JObj [(''percent'', JNum (cpuPercent c)),
           (''available'', JNum (cpuAvailable c)),
           (''memoryGB'', JNum (memoryGB c))]"

section \<open>Executing one request\<close>

text \<open>
  The four endpoint modules are external: each takes the request data and returns a
  promise, which resolves with a value or rejects with a thrown value. Their behaviour
  is an input of the model.
\<close>

datatype outcome = Resolved jsval | Rejected jsval

record endpoints =
  getSource :: "jsval \<Rightarrow> outcome"
  solveTurnstileMin :: "jsval \<Rightarrow> outcome"
  solveTurnstileMax :: "jsval \<Rightarrow> outcome"
  wafSession :: "jsval \<Rightarrow> outcome"

datatype exn = TypeError

text \<open>The \<^verbatim>\<open>try\<close>/\<^verbatim>\<open>catch\<close> of \<^verbatim>\<open>processRequest\<close> around one awaited endpoint call:
  \<open>wrap\<close> is the \<^verbatim>\<open>.then\<close> callback. The handler reads \<^verbatim>\<open>err.message\<close>, which itself
  throws when the endpoint rejected with \<^verbatim>\<open>null\<close> or \<^verbatim>\<open>undefined\<close>.\<close>

definition settle :: "outcome \<Rightarrow> (jsval \<Rightarrow> jsval) \<Rightarrow> exn + jsval" where
  "settle out wrap =
     (case out of
        Resolved res \<Rightarrow> Inr (wrap res)
      | Rejected err \<Rightarrow>
          if err = JUndefined \<or> err = JNull then Inl TypeError
          else Inr (JObj [(''code'', JNum 500), (''message'', jget ''message'' err)]))"

definition processRequest :: "endpoints \<Rightarrow> jsval \<Rightarrow> exn + jsval" where
  "processRequest eps data =
     (let mode = jget ''mode'' data in
      if mode = JStr ''source'' then
        settle (getSource eps data) (\<lambda>res. JObj [(''source'', res), (''code'', JNum 200)])
      else if mode = JStr ''turnstile-min'' then
        settle (solveTurnstileMin eps data) (\<lambda>res. JObj [(''token'', res), (''code'', JNum 200)])
      else if mode = JStr ''turnstile-max'' then
        settle (solveTurnstileMax eps data) (\<lambda>res. JObj [(''token'', res), (''code'', JNum 200)])
      else if mode = JStr ''waf-session'' then
        settle (wafSession eps data) (\<lambda>res. JObj (AList.update ''code'' (JNum 200) (spread res [])))
      else Inr (JObj [(''code'', JNum 500)]))"

section \<open>Automatic retry\<close>

text \<open>Console output of the queue, the worker and the store is kept as a list of
  entries, one constructor per call site.\<close>

datatype logline =
    LogRetry nat jsval
  | LogJobQueued string nat
  | LogProcessJob string nat
  | LogLoaded nat
  | LogProcessQueueError
  | LogDbWriteError

text \<open>
  What one call of \<^verbatim>\<open>retryUntilSuccessOrGiveUp\<close> did: the value it returned (or the
  exception that escaped it), the number of \<^verbatim>\<open>processRequest\<close> calls it made, its
  console lines, and the total time it slept.
\<close>

record retry_report =
  returned :: "exn + jsval"
  invocations :: nat
  lines :: "logline list"
  slept :: nat

text \<open>
  The \<^verbatim>\<open>for\<close> loop from index \<open>i\<close> on. \<open>eps k\<close> is how the endpoints behave at the
  \<open>k\<close>-th attempt and \<open>samples k\<close> the \<open>k\<close>-th CPU sample: sample 0 is taken before the
  loop and sample \<open>k + 1\<close> after attempt \<open>k\<close>, so at index \<open>i\<close> the variable
  \<^verbatim>\<open>cpuStats\<close> holds sample \<open>i\<close>. \<open>qlen\<close> is \<^verbatim>\<open>requestQueue.length\<close> at the return.
\<close>

function retry_from ::
  "(nat \<Rightarrow> endpoints) \<Rightarrow> (nat \<Rightarrow> pidstats) \<Rightarrow> nat \<Rightarrow> jsval \<Rightarrow> nat \<Rightarrow> nat \<Rightarrow> nat \<Rightarrow> retry_report" where
  "retry_from eps samples qlen data maxRetry delay i =
     (if i < maxRetry then
        (case processRequest (eps i) data of
           Inl e \<Rightarrow> \<lparr> returned = Inl e, invocations = 1, lines = [], slept = 0 \<rparr>
         | Inr result \<Rightarrow>
             let cpuStats = getCpuStats (samples (Suc i)) in
             if jget ''code'' result \<noteq> JNum 500 then
               \<lparr> returned = Inr (JObj
                    (AList.update ''cpu'' (cpu_json cpuStats)
                      (AList.update ''queueLength'' (JNum (of_nat qlen))
                        (spread result [(''success'', JBool True)])))),
                 invocations = 1, lines = [], slept = 0 \<rparr>
             else
               (let rest = retry_from eps samples qlen data maxRetry delay (Suc i) in
                rest \<lparr> invocations := Suc (invocations rest),
                       lines := LogRetry (i + 1) (jget ''mode'' data) # lines rest,
                       slept := delay + slept rest \<rparr>))
      else
        \<lparr> returned = Inr (JObj
             [(''success'', JBool False),
              (''code'', JNum 200),
              (''message'', JStr (''Failed after '' @ show_nat maxRetry @ '' retries'')),
              (''queueLength'', JNum (of_nat qlen)),
              (''cpu'', cpu_json (getCpuStats (samples i)))]),
           invocations = 0, lines = [], slept = 0 \<rparr>)"
  by pat_completeness auto
termination
  by (relation "measure (\<lambda>(eps, samples, qlen, data, maxRetry, delay, i). maxRetry - i)") auto

declare retry_from.simps [simp del]

definition retryUntilSuccessOrGiveUp ::
  "(nat \<Rightarrow> endpoints) \<Rightarrow> (nat \<Rightarrow> pidstats) \<Rightarrow> nat \<Rightarrow> jsval \<Rightarrow> nat \<Rightarrow> nat \<Rightarrow> retry_report" where
  "retryUntilSuccessOrGiveUp eps samples qlen data maxRetry delay =
     retry_from eps samples qlen data maxRetry delay 0"

text \<open>The call \<^verbatim>\<open>retryUntilSuccessOrGiveUp(data)\<close> of the worker: both defaults apply.\<close>

definition retry_default :: "(nat \<Rightarrow> endpoints) \<Rightarrow> (nat \<Rightarrow> pidstats) \<Rightarrow> nat \<Rightarrow> jsval \<Rightarrow> retry_report" where
  "retry_default eps samples qlen data = retryUntilSuccessOrGiveUp eps samples qlen data 5 2000"

section \<open>The durable store\<close>

text \<open>
  \<^verbatim>\<open>database.json\<close> holds the queue, the results and a \<^verbatim>\<open>meta\<close> object. A job is
  \<^verbatim>\<open>{ data, jobId, enqueuedAt }\<close>. The results object of the file, like the in-memory
  \<^verbatim>\<open>resultsStore\<close>, is an association list from job id to result, in insertion order.
  Timestamps are milliseconds as natural numbers; \<^verbatim>\<open>lastWriteAt\<close> keeps the instant
  that \<^verbatim>\<open>toISOString\<close> renders.
\<close>

record job =
  data :: jsval
  jobId :: string
  enqueuedAt :: nat

record meta =
  version :: nat
  lastWriteAt :: "nat option"

record db =
  queue :: "job list"
  results :: "(string \<times> jsval) list"
  meta :: meta

text \<open>
  What \<^verbatim>\<open>JSON.parse\<close> of the file gives, as far as \<^verbatim>\<open>readDb\<close> looks at it: \<open>p_queue\<close>
  is \<open>None\<close> when \<^verbatim>\<open>parsed.queue\<close> is not an array, \<open>p_results\<close> when
  \<^verbatim>\<open>parsed.results\<close> is not an object, \<open>p_meta\<close> when \<^verbatim>\<open>parsed.meta\<close> is falsy.
  The file is \<open>Corrupt\<close> when the \<^verbatim>\<open>try\<close> block throws on its content (\<^verbatim>\<open>JSON.parse\<close>
  fails, or the parsed value is \<^verbatim>\<open>null\<close>), and \<open>Missing\<close> when it does not exist.
\<close>

record parsed =
  p_queue :: "job list option"
  p_results :: "(string \<times> jsval) list option"
  p_meta :: "meta option"

datatype dbfile = Missing | Corrupt string | Parsed parsed

text \<open>
  The worker loop runs as one activity per call of \<^verbatim>\<open>processQueue\<close> that passed the
  guard. Between two awaits it is either about to resume from \<^verbatim>\<open>await canProcessNow()\<close>
  (\<open>Polling\<close>) or holds a job it has shifted from the queue and for whose removal it
  has awaited the write (\<open>Running\<close>).
\<close>

datatype wpc = Polling | Running job

text \<open>History of the worker, kept for stating the order of its effects; the program
  never reads it. \<open>RemovalPersisted\<close> and \<open>ResultPersisted\<close> stand for writes that have
  landed in the file.\<close>

datatype obs =
    Popped string
  | RemovalPersisted string
  | Invoked string
  | OutcomeComputed string
  | ResultCached string
  | ResultPersisted string

text \<open>
  The state: the files, whether the file system accepts a write of \<^verbatim>\<open>database.json\<close>
  at the moment (\<open>writable\<close>; it does not on a full or read-only disk), the
  module-level variables (\<^verbatim>\<open>DEFAULT_DB\<close> is a mutable object whose \<^verbatim>\<open>queue\<close> array and
  \<^verbatim>\<open>results\<close> object can be reached through an alias, see \<open>readDb\<close>), the active worker
  loops, the console, and history variables (\<open>issued\<close>: the ids given to accepted
  submissions, ever; \<open>arrivals\<close>: the jobs put into \<^verbatim>\<open>requestQueue\<close> since the process
  started; \<open>started\<close>: the jobs whose execution began since the process started;
  \<open>submitted\<close>: the jobs of the accepted submissions, ever, in their order; \<open>begun\<close>: the
  jobs whose execution began, ever, in that order; \<open>trace\<close>: the worker's effects, ever).
\<close>

record state =
  dbfile :: dbfile
  backups :: "(nat \<times> string) list"
  writable :: bool
  DEFAULT_queue :: "job list"
  DEFAULT_results :: "(string \<times> jsval) list"
  requestQueue :: "job list"
  processingQueue :: bool
  resultsStore :: "(string \<times> jsval) list"
  workers :: "wpc list"
  console :: "logline list"
  issued :: "string list"
  arrivals :: "job list"
  started :: "job list"
  submitted :: "job list"
  begun :: "job list"
  trace :: "obs list"

definition DEFAULT_meta :: meta where
  "DEFAULT_meta = \<lparr> version = 1, lastWriteAt = None \<rparr>"

text \<open>\<^verbatim>\<open>writeJsonAtomic(DB_PATH, dataObj)\<close> when it succeeds: the temporary file is
  written and renamed over the file. When \<^verbatim>\<open>boot\<close> or a route calls \<^verbatim>\<open>ensureDb\<close> or
  \<^verbatim>\<open>readDb\<close> directly, the file-system calls are taken to succeed, except where the code
  handles their failure (a missing or unreadable file); a write that fails inside the
  chain of \<^verbatim>\<open>queueWriteDb\<close> is handled there.\<close>

definition writeJsonAtomic :: "db \<Rightarrow> state \<Rightarrow> state" where
  "writeJsonAtomic dataObj s =
     s \<lparr> dbfile := Parsed \<lparr> p_queue = Some (queue dataObj),
                            p_results = Some (results dataObj),
                            p_meta = Some (meta dataObj) \<rparr> \<rparr>"

text \<open>\<^verbatim>\<open>{ ...DEFAULT_DB, meta: { ...DEFAULT_DB.meta, lastWriteAt: new Date().toISOString() } }\<close>\<close>

definition default_stamped :: "nat \<Rightarrow> state \<Rightarrow> db" where
  "default_stamped t s =
     \<lparr> queue = DEFAULT_queue s, results = DEFAULT_results s,
       meta = DEFAULT_meta \<lparr> lastWriteAt := Some t \<rparr> \<rparr>"

definition ensureDb :: "nat \<Rightarrow> state \<Rightarrow> state" where
  "ensureDb t s = (if dbfile s = Missing then writeJsonAtomic (default_stamped t s) s else s)"

text \<open>The object \<^verbatim>\<open>readDb\<close> returns from parsed content (``heal minimal jika field
  hilang'').\<close>

definition heal :: "parsed \<Rightarrow> db" where
  "heal p =
     \<lparr> queue = (case p_queue p of Some q \<Rightarrow> q | None \<Rightarrow> []),
       results = (case p_results p of Some r \<Rightarrow> r | None \<Rightarrow> []),
       meta = (case p_meta p of Some m \<Rightarrow> m | None \<Rightarrow> DEFAULT_meta) \<rparr>"

text \<open>
  \<^verbatim>\<open>readDb\<close> at time \<open>t\<close>: the new state, the object returned, and whether that object
  is \<^verbatim>\<open>{ ...DEFAULT_DB }\<close>. In that case its \<^verbatim>\<open>queue\<close> and \<^verbatim>\<open>results\<close> are the very array
  and object of \<^verbatim>\<open>DEFAULT_DB\<close> (the copy is shallow). In the \<^verbatim>\<open>catch\<close> branch the copy of
  the file fails silently when there is no file; \<^verbatim>\<open>copyFile\<close> replaces an existing
  destination. Nothing is written to the console.
\<close>

definition readDb :: "nat \<Rightarrow> state \<Rightarrow> state \<times> db \<times> bool" where
  "readDb t s =
     (case dbfile s of
        Parsed p \<Rightarrow> (s, heal p, False)
      | Corrupt raw \<Rightarrow>
          (let s1 = s \<lparr> backups := AList.update t raw (backups s) \<rparr> in
           (writeJsonAtomic (default_stamped t s1) s1,
            \<lparr> queue = DEFAULT_queue s1, results = DEFAULT_results s1, meta = DEFAULT_meta \<rparr>,
            True))
      | Missing \<Rightarrow>
          (writeJsonAtomic (default_stamped t s) s,
           \<lparr> queue = DEFAULT_queue s, results = DEFAULT_results s, meta = DEFAULT_meta \<rparr>,
           True))"

section \<open>Housekeeping of old results: the test\<close>

text \<open>
  \<^verbatim>\<open>ts = result?.finishedAt || result?.cpu?.finishedAt || 0\<close>, then the anchor: in the
  loop over memory \<^verbatim>\<open>typeof ts === 'number' ? ts : (result?.queueLengthTime || 0)\<close>, in the
  loop over the file \<^verbatim>\<open>typeof ts === 'number' ? ts : 0\<close>. A result is dropped when
  \<^verbatim>\<open>anchor && now - anchor > TTL_MS\<close>. \<open>ToNumber\<close> is JavaScript's conversion to a number
  (\<open>None\<close> for NaN), a parameter of the model; a comparison with NaN is false.
\<close>

definition result_ts :: "jsval \<Rightarrow> jsval" where
  "result_ts result =
     js_or (js_or (jget ''finishedAt'' result) (jget ''finishedAt'' (jget ''cpu'' result))) (JNum 0)"

definition anchor_mem :: "jsval \<Rightarrow> jsval" where
  "anchor_mem result =
     (case result_ts result of
        JNum n \<Rightarrow> JNum n
      | _ \<Rightarrow> js_or (jget ''queueLengthTime'' result) (JNum 0))"

definition anchor_db :: "jsval \<Rightarrow> jsval" where
  "anchor_db res = (case result_ts res of JNum n \<Rightarrow> JNum n | _ \<Rightarrow> JNum 0)"

definition too_old :: "(jsval \<Rightarrow> rat option) \<Rightarrow> nat \<Rightarrow> rat option \<Rightarrow> jsval \<Rightarrow> bool" where
  "too_old ToNumber now ttl anchor =
     (truthy anchor \<and>
      (case (case anchor of JNum a \<Rightarrow> Some a | _ \<Rightarrow> ToNumber anchor) of
         None \<Rightarrow> False
       | Some a \<Rightarrow> (case ttl of None \<Rightarrow> False | Some l \<Rightarrow> of_nat now - a > l)))"

section \<open>Serialised writes\<close>

text \<open>
  The five update functions passed to \<^verbatim>\<open>queueWriteDb\<close>, by call site: the submission
  (\<^verbatim>\<open>db.queue.push(enqueued)\<close>), the worker before it executes
  (\<^verbatim>\<open>db.queue = db.queue.filter(...)\<close>), the worker after it (\<^verbatim>\<open>db.results[jobId] = result\<close>),
  the result read (\<^verbatim>\<open>delete db.results[jobId]\<close> and the filter of the queue), and the
  housekeeping.
\<close>

datatype mutator =
    PushJob job
  | RemoveJob string
  | PutResult string jsval
  | TakeResult string
  | DropOld "jsval \<Rightarrow> rat option" nat "rat option"

definition updateFn :: "mutator \<Rightarrow> db \<Rightarrow> db" where
  "updateFn m d =
     (case m of
        PushJob enqueued \<Rightarrow> d \<lparr> queue := queue d @ [enqueued] \<rparr>
      | RemoveJob jid \<Rightarrow> d \<lparr> queue := filter (\<lambda>q. jobId q \<noteq> jid) (queue d) \<rparr>
      | PutResult jid result \<Rightarrow> d \<lparr> results := AList.update jid result (results d) \<rparr>
      | TakeResult jid \<Rightarrow>
          d \<lparr> results := AList.delete jid (results d),
              queue := filter (\<lambda>q. jobId q \<noteq> jid) (queue d) \<rparr>
      | DropOld ToNumber now ttl \<Rightarrow>
          d \<lparr> results :=
                foldl (\<lambda>acc (jid, res).
                         if too_old ToNumber now ttl (anchor_db res) then AList.delete jid acc else acc)
                      (results d) (results d) \<rparr>)"

text \<open>Which update functions change the array \<^verbatim>\<open>db.queue\<close>, respectively the object
  \<^verbatim>\<open>db.results\<close>, in place (the others assign a new value to the field of \<^verbatim>\<open>db\<close>).\<close>

definition queue_in_place :: "mutator \<Rightarrow> bool" where
  "queue_in_place m = (case m of PushJob _ \<Rightarrow> True | _ \<Rightarrow> False)"

definition results_in_place :: "mutator \<Rightarrow> bool" where
  "results_in_place m =
     (case m of PutResult _ _ \<Rightarrow> True | TakeResult _ \<Rightarrow> True | DropOld _ _ _ \<Rightarrow> True | _ \<Rightarrow> False)"

text \<open>
  \<^verbatim>\<open>await queueWriteDb(updateFn)\<close> at time \<open>t\<close>. The writes are chained on \<^verbatim>\<open>writeLock\<close>,
  so they take effect one after the other in the order of the calls, and every caller
  awaits its own write: the model applies the write at the call. When \<^verbatim>\<open>readDb\<close> has
  returned the shallow copy of \<^verbatim>\<open>DEFAULT_DB\<close>, an update in place also changes
  \<^verbatim>\<open>DEFAULT_DB\<close>.

  The \<^verbatim>\<open>catch\<close> of the chain: while the file system refuses writes, \<^verbatim>\<open>fsp.writeFile\<close> of
  the temporary file rejects, in \<^verbatim>\<open>writeJsonAtomic\<close> after the update function has run on
  the object just read, or already in the \<^verbatim>\<open>catch\<close> branch of \<^verbatim>\<open>readDb\<close> (whose copy to the
  backup fails silently). The file stays as it was, \<^verbatim>\<open>console.error('DB write error:', err)\<close>
  logs the failure, and the promise the caller awaits resolves all the same: the caller
  goes on as after a write that landed. No update function throws.
\<close>

definition queueWriteDb :: "nat \<Rightarrow> mutator \<Rightarrow> state \<Rightarrow> state" where
  "queueWriteDb t m s =
     (if writable s then
        (case readDb t s of
           (s1, d, shared) \<Rightarrow>
             (let next = updateFn m d;
                  s2 = (if shared then
                          s1 \<lparr> DEFAULT_queue := (if queue_in_place m then queue next else DEFAULT_queue s1),
                               DEFAULT_results := (if results_in_place m then results next else DEFAULT_results s1) \<rparr>
                        else s1)
              in writeJsonAtomic (next \<lparr> meta := \<lparr> version = 1, lastWriteAt = Some t \<rparr> \<rparr>) s2))
      else s \<lparr> console := console s @ [LogDbWriteError] \<rparr>)"

section \<open>Configuration\<close>

text \<open>
  \<open>env\<close> is \<^verbatim>\<open>process.env\<close>. \<^verbatim>\<open>reqValidate\<close> is a module outside this file: it returns
  \<^verbatim>\<open>true\<close> or a description of what is wrong with the body.
\<close>

record config =
  env :: "string \<Rightarrow> string option"
  reqValidate :: "jsval \<Rightarrow> jsval"
  ToNumber :: "jsval \<Rightarrow> rat option"

text \<open>\<^verbatim>\<open>process.env.authToken || null\<close>\<close>

definition authToken :: "config \<Rightarrow> string option" where
  "authToken cfg = (case env cfg ''authToken'' of None \<Rightarrow> None | Some tok \<Rightarrow> if tok = [] then None else Some tok)"

text \<open>\<^verbatim>\<open>Number(process.env.RESULT_TTL_MS || 15 * 60 * 1000)\<close>\<close>

definition TTL_MS :: "config \<Rightarrow> rat option" where
  "TTL_MS cfg =
     (case env cfg ''RESULT_TTL_MS'' of
        None \<Rightarrow> Some (15 * 60 * 1000)
      | Some v \<Rightarrow> if v = [] then Some (15 * 60 * 1000) else ToNumber cfg (JStr v))"

section \<open>The worker\<close>

text \<open>\<^verbatim>\<open>processQueue()\<close> up to its first await: the guard, the flag, and the first test
  of the outer \<^verbatim>\<open>while\<close>, which holds since the guard has just seen a job.\<close>

definition processQueue :: "state \<Rightarrow> state" where
  "processQueue s =
     (if processingQueue s \<or> requestQueue s = [] then s
      else s \<lparr> processingQueue := True, workers := workers s @ [Polling] \<rparr>)"

text \<open>The \<^verbatim>\<open>catch\<close> and \<^verbatim>\<open>finally\<close> of \<^verbatim>\<open>processQueue\<close>, and its normal end: loop \<open>k\<close> is
  over.\<close>

definition leave :: "nat \<Rightarrow> state \<Rightarrow> state" where
  "leave k s = s \<lparr> processingQueue := False, workers := take k (workers s) @ drop (Suc k) (workers s) \<rparr>"

text \<open>The test of the outer \<^verbatim>\<open>while\<close> after a job: with a job waiting the loop asks
  for the CPU again, otherwise it ends.\<close>

definition next_turn :: "nat \<Rightarrow> state \<Rightarrow> state" where
  "next_turn k s =
     (if requestQueue s \<noteq> [] then s \<lparr> workers := (workers s) [k := Polling] \<rparr> else leave k s)"

text \<open>
  Loop \<open>k\<close> resumes from \<^verbatim>\<open>await canProcessNow()\<close> with a CPU sample. Over the threshold
  it sleeps 500 ms and asks again. Otherwise it shifts the first job, awaits the write
  that removes it from the file, and logs. (\<^verbatim>\<open>shift()\<close> of an empty array gives
  \<^verbatim>\<open>undefined\<close>, whose destructuring throws.) The history records the removal as
  persisted only when the write has landed.
\<close>

definition processQueue_poll :: "nat \<Rightarrow> nat \<Rightarrow> pidstats \<Rightarrow> state \<Rightarrow> state" where
  "processQueue_poll t k sample s =
     (if k < length (workers s) \<and> workers s ! k = Polling then
        (if canProcessNow sample then
           (case requestQueue s of
              [] \<Rightarrow> leave k (s \<lparr> console := console s @ [LogProcessQueueError] \<rparr>)
            | j # rest \<Rightarrow>
                (let s1 = s \<lparr> requestQueue := rest, trace := trace s @ [Popped (jobId j)] \<rparr>;
                     s2 = queueWriteDb t (RemoveJob (jobId j)) s1
                 in s2 \<lparr> console := console s2 @ [LogProcessJob (jobId j) (length (requestQueue s2))],
                         workers := (workers s2) [k := Running j],
                         trace := trace s2 @ (if writable s then [RemovalPersisted (jobId j)] else []) \<rparr>))
         else s)
      else s)"

text \<open>
  Loop \<open>k\<close> executes the job it holds, with the retries, stores the result in memory,
  awaits the write of the result, and tests the outer \<^verbatim>\<open>while\<close> again. \<open>eps\<close> and
  \<open>samples\<close> are what the endpoints and the CPU monitor do during this execution. The
  history records the result as persisted only when the write has landed.
\<close>

definition processQueue_run :: "nat \<Rightarrow> nat \<Rightarrow> (nat \<Rightarrow> endpoints) \<Rightarrow> (nat \<Rightarrow> pidstats) \<Rightarrow> state \<Rightarrow> state" where
  "processQueue_run t k eps samples s =
     (if k < length (workers s) then
        (case workers s ! k of
           Polling \<Rightarrow> s
         | Running j \<Rightarrow>
             (let rep = retry_default eps samples (length (requestQueue s)) (data j);
                  s1 = s \<lparr> console := console s @ lines rep,
                          started := started s @ [j],
                          begun := begun s @ [j],
                          trace := trace s @ replicate (invocations rep) (Invoked (jobId j)) \<rparr>
              in case returned rep of
                   Inl e \<Rightarrow> leave k (s1 \<lparr> console := console s1 @ [LogProcessQueueError] \<rparr>)
                 | Inr result \<Rightarrow>
                     (let s2 = s1 \<lparr> resultsStore := AList.update (jobId j) result (resultsStore s1),
                                   trace := trace s1 @ [OutcomeComputed (jobId j), ResultCached (jobId j)] \<rparr>;
                          s3 = queueWriteDb t (PutResult (jobId j) result) s2;
                          s4 = s3 \<lparr> trace := trace s3 @ (if writable s then [ResultPersisted (jobId j)] else []) \<rparr>
                      in next_turn k s4)))
      else s)"

section \<open>The two routes\<close>

record request =
  body :: jsval
  rnd :: string
  browser :: bool
  stats :: pidstats

record response =
  status :: nat
  payload :: jsval

text \<open>
  \<^verbatim>\<open>POST /cf-clearance-scraper\<close> at time \<open>t\<close>. \<open>rnd\<close> is
  \<^verbatim>\<open>Math.random().toString(36).substring(2)\<close>, \<open>browser\<close> whether \<^verbatim>\<open>global.browser\<close> is set,
  \<open>stats\<close> the CPU sample taken for the response.
\<close>

definition post_cf_clearance_scraper :: "config \<Rightarrow> nat \<Rightarrow> request \<Rightarrow> state \<Rightarrow> state \<times> response" where
  "post_cf_clearance_scraper cfg t req s =
     (let check = reqValidate cfg (body req) in
      if check \<noteq> JBool True then
        (s, \<lparr> status = 400,
              payload = JObj [(''code'', JNum 400), (''message'', JStr ''Bad Request''), (''schema'', check)] \<rparr>)
      else if (case authToken cfg of None \<Rightarrow> False | Some tok \<Rightarrow> jget ''authToken'' (body req) \<noteq> JStr tok) then
        (s, \<lparr> status = 401,
              payload = JObj [(''code'', JNum 401), (''message'', JStr ''Unauthorized'')] \<rparr>)
      else if env cfg ''SKIP_LAUNCH'' \<noteq> Some ''true'' \<and> \<not> browser req then
        (s, \<lparr> status = 503,
              payload = JObj [(''code'', JNum 503), (''message'', JStr ''The scanner is not ready yet.'')] \<rparr>)
      else
        (let jid = show_nat t @ ''-'' @ rnd req;
             enqueued = \<lparr> data = body req, jobId = jid, enqueuedAt = t \<rparr>;
             s1 = s \<lparr> requestQueue := requestQueue s @ [enqueued],
                     issued := issued s @ [jid],
                     arrivals := arrivals s @ [enqueued],
                     submitted := submitted s @ [enqueued] \<rparr>;
             s2 = s1 \<lparr> console := console s1 @ [LogJobQueued jid (length (requestQueue s1))] \<rparr>;
             s3 = queueWriteDb t (PushJob enqueued) s2;
             s4 = processQueue s3;
             cpuStats = getCpuStats (stats req)
         in (s4, \<lparr> status = 200,
                   payload = JObj [(''success'', JBool False),
                                   (''status'', JStr ''queued''),
                                   (''jobId'', JStr jid),
                                   (''queueLength'', JNum (of_nat (length (requestQueue s4)))),
                                   (''cpu'', cpu_json cpuStats)] \<rparr>)))"

text \<open>\<^verbatim>\<open>!resultsStore[jobId]\<close> is false: the key is there and its value is truthy.\<close>

definition held :: "(string \<times> jsval) list \<Rightarrow> string \<Rightarrow> bool" where
  "held store jid = (case map_of store jid of None \<Rightarrow> False | Some v \<Rightarrow> truthy v)"

definition pending_body :: jsval where
  "pending_body =
     JObj [(''success'', JBool False),
           (''status'', JStr ''pending''),
           (''message'', JStr ''Job is still in queue or processing'')]"

text \<open>\<^verbatim>\<open>GET /cf-clearance-result/:jobId\<close> at time \<open>t\<close>.\<close>

definition get_cf_clearance_result :: "nat \<Rightarrow> string \<Rightarrow> state \<Rightarrow> state \<times> response" where
  "get_cf_clearance_result t jid s =
     (let s1 = (if \<not> held (resultsStore s) jid then
                  (case readDb t s of
                     (s', d, shared) \<Rightarrow>
                       (case map_of (results d) jid of
                          None \<Rightarrow> s'
                        | Some v \<Rightarrow>
                            if truthy v then s' \<lparr> resultsStore := AList.update jid v (resultsStore s') \<rparr>
                            else s'))
                else s)
      in case map_of (resultsStore s1) jid of
           None \<Rightarrow> (s1, \<lparr> status = 200, payload = pending_body \<rparr>)
         | Some v \<Rightarrow>
             if \<not> truthy v then (s1, \<lparr> status = 200, payload = pending_body \<rparr>)
             else
               (let s2 = s1 \<lparr> resultsStore := AList.delete jid (resultsStore s1) \<rparr>;
                    s3 = queueWriteDb t (TakeResult jid) s2
                in (s3, \<lparr> status = 200, payload = v \<rparr>)))"

section \<open>Start of the process and housekeeping\<close>

text \<open>The callback of \<^verbatim>\<open>setInterval\<close>, run at time \<open>now\<close>: the pass over
  \<^verbatim>\<open>Object.entries(resultsStore)\<close>, then, if it deleted something, the write.\<close>

definition housekeeping :: "config \<Rightarrow> nat \<Rightarrow> state \<Rightarrow> state" where
  "housekeeping cfg now s =
     (case foldl (\<lambda>(store, changed) (jid, result).
                    if too_old (ToNumber cfg) now (TTL_MS cfg) (anchor_mem result)
                    then (AList.delete jid store, True) else (store, changed))
                 (resultsStore s, False) (resultsStore s) of
        (store, changed) \<Rightarrow>
          (let s1 = s \<lparr> resultsStore := store \<rparr> in
           if changed then queueWriteDb now (DropOld (ToNumber cfg) now (TTL_MS cfg)) s1 else s1))"

text \<open>The module-level variables as a starting process initialises them. The files,
  the condition of the file system, the console and the history variables that span
  restarts stay.\<close>

definition fresh_process :: "state \<Rightarrow> state" where
  "fresh_process s =
     s \<lparr> DEFAULT_queue := [], DEFAULT_results := [],
         requestQueue := [], processingQueue := False, resultsStore := [],
         workers := [], arrivals := [], started := [] \<rparr>"

text \<open>\<^verbatim>\<open>boot\<close> at time \<open>t\<close>, run to its end before any request is served.\<close>

definition boot :: "nat \<Rightarrow> state \<Rightarrow> state" where
  "boot t s =
     (case readDb t (ensureDb t s) of
        (s1, d, shared) \<Rightarrow>
          (let s2 = s1 \<lparr> requestQueue := queue d, resultsStore := results d, arrivals := queue d \<rparr> in
           if requestQueue s2 \<noteq> [] then
             processQueue (s2 \<lparr> console := console s2 @ [LogLoaded (length (requestQueue s2))] \<rparr>)
           else s2))"

section \<open>Runs\<close>

text \<open>
  The server is single-threaded: between two awaits a handler runs alone. An event is
  one such stretch, taken together with the store writes it awaits; a run is a list of
  timed events. \<open>Restart\<close> is a crash, or a stop, followed by a new start. \<open>Disk b\<close> is
  the environment: from now on the file system refuses (\<open>b\<close> false) or accepts (\<open>b\<close>
  true) writes of \<^verbatim>\<open>database.json\<close>.

  What the model takes for granted: nobody else writes the files; the file-system calls
  that \<^verbatim>\<open>boot\<close> and the result route make directly succeed (from the first start on the
  file parses in every state of a run, see \<open>file_parses\<close> below, so that these calls only
  read it); \<^verbatim>\<open>boot\<close> has finished before the first request is served; the clock is read
  once per event; a value written to the file is read back as it was (\<^verbatim>\<open>JSON.stringify\<close>
  drops properties that are \<^verbatim>\<open>undefined\<close>); and a job id is never the name of a
  property that every object inherits.
\<close>

datatype event =
    Submit request
  | Fetch string
  | Poll nat pidstats
  | Exec nat "nat \<Rightarrow> endpoints" "nat \<Rightarrow> pidstats"
  | Sweep
  | Restart
  | Disk bool

definition step :: "config \<Rightarrow> nat \<times> event \<Rightarrow> state \<Rightarrow> state" where
  "step cfg te s =
     (case te of
        (t, Submit req) \<Rightarrow> fst (post_cf_clearance_scraper cfg t req s)
      | (t, Fetch jid) \<Rightarrow> fst (get_cf_clearance_result t jid s)
      | (t, Poll k sample) \<Rightarrow> processQueue_poll t k sample s
      | (t, Exec k eps samples) \<Rightarrow> processQueue_run t k eps samples s
      | (t, Sweep) \<Rightarrow> housekeeping cfg t s
      | (t, Restart) \<Rightarrow> boot t (fresh_process s)
      | (t, Disk b) \<Rightarrow> s \<lparr> writable := b \<rparr>)"

definition run :: "config \<Rightarrow> (nat \<times> event) list \<Rightarrow> state \<Rightarrow> state" where
  "run cfg evs s = foldl (\<lambda>s te. step cfg te s) s evs"

text \<open>A machine on which the server has never run, and its first start.\<close>

definition installed :: state where
  "installed =
     \<lparr> dbfile = Missing, backups = [], writable = True,
       DEFAULT_queue = [], DEFAULT_results = [],
       requestQueue = [], processingQueue = False, resultsStore = [],
       workers = [], console = [], issued = [], arrivals = [], started = [],
       submitted = [], begun = [], trace = [] \<rparr>"

definition first_start :: "nat \<Rightarrow> state" where
  "first_start t = boot t installed"

section \<open>The variant without persistence\<close>

text \<open>
  \<^verbatim>\<open>src/index.js\<close> is the same server without the file: its queue holds
  \<^verbatim>\<open>{ data, jobId }\<close>, and its submission route runs the same checks, pushes, logs, calls
  \<^verbatim>\<open>processQueue()\<close> (whose guard sets the flag, the queue being non-empty) and answers in
  the same way. Its \<^verbatim>\<open>getCpuStats\<close> divides by its own core count, \<^verbatim>\<open>const vCPU = 8\<close>.
\<close>

definition vCPU_index :: rat where
  "vCPU_index = 8"

definition getCpuStats_index :: "pidstats \<Rightarrow> cpustats" where
  "getCpuStats_index usage =
     (let fraction = cpu usage / (100 * vCPU_index);
          gb = memory usage / (1024 ^ 3)
      in \<lparr> cpuFraction = fraction,
           cpuPercent = cpu usage,
           cpuAvailable = max 0 (1 - fraction),
           memoryGB = toFixed2 gb \<rparr>)"

record index_state =
  requestQueue_i :: "(jsval \<times> string) list"
  processingQueue_i :: bool
  resultsStore_i :: "(string \<times> jsval) list"
  console_i :: "logline list"

definition post_cf_clearance_scraper_index ::
  "config \<Rightarrow> nat \<Rightarrow> request \<Rightarrow> index_state \<Rightarrow> index_state \<times> response" where
  "post_cf_clearance_scraper_index cfg t req s =
     (let check = reqValidate cfg (body req) in
      if check \<noteq> JBool True then
        (s, \<lparr> status = 400,
              payload = JObj [(''code'', JNum 400), (''message'', JStr ''Bad Request''), (''schema'', check)] \<rparr>)
      else if (case authToken cfg of None \<Rightarrow> False | Some tok \<Rightarrow> jget ''authToken'' (body req) \<noteq> JStr tok) then
        (s, \<lparr> status = 401,
              payload = JObj [(''code'', JNum 401), (''message'', JStr ''Unauthorized'')] \<rparr>)
      else if env cfg ''SKIP_LAUNCH'' \<noteq> Some ''true'' \<and> \<not> browser req then
        (s, \<lparr> status = 503,
              payload = JObj [(''code'', JNum 503), (''message'', JStr ''The scanner is not ready yet.'')] \<rparr>)
      else
        (let jid = show_nat t @ ''-'' @ rnd req;
             s1 = s \<lparr> requestQueue_i := requestQueue_i s @ [(body req, jid)] \<rparr>;
             s2 = s1 \<lparr> console_i := console_i s1 @ [LogJobQueued jid (length (requestQueue_i s1))] \<rparr>;
             s3 = s2 \<lparr> processingQueue_i := True \<rparr>;
             cpuStats = getCpuStats_index (stats req)
         in (s3, \<lparr> status = 200,
                   payload = JObj [(''success'', JBool False),
                                   (''status'', JStr ''queued''),
                                   (''jobId'', JStr jid),
                                   (''queueLength'', JNum (of_nat (length (requestQueue_i s3)))),
                                   (''cpu'', cpu_json cpuStats)] \<rparr>)))"

section \<open>Observations of a state\<close>

text \<open>What the next \<^verbatim>\<open>readDb\<close> returns: the content of the durable store.\<close>

definition durable :: "state \<Rightarrow> db" where
  "durable s =
     (case dbfile s of
        Parsed p \<Rightarrow> heal p
      | _ \<Rightarrow> \<lparr> queue = DEFAULT_queue s, results = DEFAULT_results s, meta = DEFAULT_meta \<rparr>)"

text \<open>A job id is resolved when a result is stored for it, in memory or in the file;
  the result a read delivers is the one in memory, else the one in the file.\<close>

definition resolved :: "state \<Rightarrow> string \<Rightarrow> bool" where
  "resolved s jid = (held (resultsStore s) jid \<or> held (results (durable s)) jid)"

definition stored_result :: "state \<Rightarrow> string \<Rightarrow> jsval option" where
  "stored_result s jid =
     (if held (resultsStore s) jid then map_of (resultsStore s) jid else map_of (results (durable s)) jid)"

text \<open>The single-flight guard: at most one worker loop is active, and the flag
  \<^verbatim>\<open>processingQueue\<close> is set exactly while one is. \<open>executing\<close> lists the jobs that
  loops hold for execution.\<close>

definition single_flight :: "state \<Rightarrow> bool" where
  "single_flight s = (length (workers s) \<le> 1 \<and> processingQueue s = (workers s \<noteq> []))"

definition executing :: "state \<Rightarrow> job list" where
  "executing s = concat (map (\<lambda>w. case w of Running j \<Rightarrow> [j] | Polling \<Rightarrow> []) (workers s))"

text \<open>Order of service: the jobs that arrived in \<^verbatim>\<open>requestQueue\<close> since the process
  started are, in order, those whose execution has begun, the one held for execution,
  and those still waiting.\<close>

definition fifo :: "state \<Rightarrow> bool" where
  "fifo s = (arrivals s = started s @ executing s @ requestQueue s)"

text \<open>The job ids of a list of jobs, the keys of a results object, and the ids whose
  removal, respectively result, the worker has written to the file, in order.\<close>

definition ids :: "job list \<Rightarrow> string list" where
  "ids q = map jobId q"

definition keys :: "(string \<times> jsval) list \<Rightarrow> string set" where
  "keys store = fst ` set store"

definition removed_ids :: "obs list \<Rightarrow> string list" where
  "removed_ids tr = concat (map (\<lambda>e. case e of RemovalPersisted j \<Rightarrow> [j] | _ \<Rightarrow> []) tr)"

definition persisted_ids :: "obs list \<Rightarrow> string list" where
  "persisted_ids tr = concat (map (\<lambda>e. case e of ResultPersisted j \<Rightarrow> [j] | _ \<Rightarrow> []) tr)"

text \<open>The file exists and parses.\<close>

definition is_parsed :: "state \<Rightarrow> bool" where
  "is_parsed s = (case dbfile s of Parsed p \<Rightarrow> True | _ \<Rightarrow> False)"

text \<open>The bookkeeping invariant, on what it observes: the flag \<open>parsed\<close> (the file
  parses and the file system accepts writes), the stored queue \<open>dq\<close>, the queue in memory
  \<open>rq\<close>, the results in memory and in the file, the jobs held for execution, the ids
  removed and persisted so far, and the ids issued.\<close>

definition tidy_obs ::
  "bool \<Rightarrow> job list \<Rightarrow> job list \<Rightarrow> (string \<times> jsval) list \<Rightarrow> (string \<times> jsval) list
   \<Rightarrow> job list \<Rightarrow> string list \<Rightarrow> string list \<Rightarrow> string list \<Rightarrow> bool" where
  "tidy_obs parsed dq rq mem disk ex removed persisted iss =
     (parsed
      \<and> dq = rq
      \<and> distinct (ids rq)
      \<and> distinct (map fst mem)
      \<and> distinct (map fst disk)
      \<and> set (ids rq) \<inter> keys mem = {}
      \<and> set (ids rq) \<inter> keys disk = {}
      \<and> set (ids rq) \<inter> set (ids ex) = {}
      \<and> set (ids rq) \<inter> set removed = {}
      \<and> distinct removed
      \<and> set (ids ex) \<subseteq> set removed
      \<and> set persisted \<subseteq> set removed
      \<and> distinct persisted
      \<and> set (ids ex) \<inter> set persisted = {}
      \<and> keys mem \<subseteq> set persisted
      \<and> keys disk \<subseteq> set persisted
      \<and> set (ids rq) \<subseteq> set iss
      \<and> keys mem \<subseteq> set iss
      \<and> keys disk \<subseteq> set iss
      \<and> set removed \<subseteq> set iss)"

definition tidy :: "state \<Rightarrow> bool" where
  "tidy s =
     tidy_obs (is_parsed s \<and> writable s) (queue (durable s)) (requestQueue s) (resultsStore s)
       (results (durable s)) (executing s) (removed_ids (trace s)) (persisted_ids (trace s)) (issued s)"

text \<open>Job ids are \<^verbatim>\<open>Date.now() + '-' + Math.random().toString(36).substring(2)\<close>. A run has
  fresh ids when no submission generates an id that an earlier accepted submission was
  given.\<close>

fun fresh_ids :: "config \<Rightarrow> (nat \<times> event) list \<Rightarrow> state \<Rightarrow> bool" where
  "fresh_ids cfg [] s = True"
| "fresh_ids cfg ((t, e) # evs) s =
     ((case e of Submit req \<Rightarrow> show_nat t @ ''-'' @ rnd req \<notin> set (issued s) | _ \<Rightarrow> True)
      \<and> fresh_ids cfg evs (step cfg (t, e) s))"

text \<open>A run in which every write of the store lands: the file system never starts to
  refuse writes.\<close>

fun writes_land :: "(nat \<times> event) list \<Rightarrow> bool" where
  "writes_land [] = True"
| "writes_land ((t, e) # evs) = ((case e of Disk b \<Rightarrow> b | _ \<Rightarrow> True) \<and> writes_land evs)"

text \<open>\<open>precedes a b tr\<close>: no \<open>b\<close> occurs in \<open>tr\<close> before the first \<open>a\<close>.
  \<open>never_after a b tr\<close>: no \<open>a\<close> occurs after the first \<open>b\<close>.\<close>

fun precedes :: "obs \<Rightarrow> obs \<Rightarrow> obs list \<Rightarrow> bool" where
  "precedes a b [] = True"
| "precedes a b (x # xs) = (if x = a then True else if x = b then False else precedes a b xs)"

fun never_after :: "obs \<Rightarrow> obs \<Rightarrow> obs list \<Rightarrow> bool" where
  "never_after a b [] = True"
| "never_after a b (x # xs) = (if x = b then a \<notin> set xs else never_after a b xs)"

text \<open>The order of the worker's effects while the writes land, with the fact that
  carries it: the removal of a job held for execution has been written.\<close>

definition ordered :: "state \<Rightarrow> bool" where
  "ordered s =
     ((\<forall>j. precedes (RemovalPersisted j) (Invoked j) (trace s)
           \<and> precedes (OutcomeComputed j) (ResultPersisted j) (trace s)
           \<and> precedes (RemovalPersisted j) (ResultPersisted j) (trace s))
      \<and> (\<forall>j. j \<in> set (ids (executing s)) \<longrightarrow> RemovalPersisted j \<in> set (trace s)))"

text \<open>The part of that order that does not depend on the writes landing: a result is
  written only after its outcome has been computed.\<close>

definition outcome_first :: "state \<Rightarrow> bool" where
  "outcome_first s = (\<forall>j. precedes (OutcomeComputed j) (ResultPersisted j) (trace s))"

text \<open>Order of service over restarts: the jobs whose execution has begun, ever, then the
  one held for execution, then those waiting, are accepted submissions in the order of
  their submission; and the stored queue holds jobs that wait in memory, in the same
  order.\<close>

definition in_order :: "state \<Rightarrow> bool" where
  "in_order s =
     (is_parsed s
      \<and> subseq (begun s @ executing s @ requestQueue s) (submitted s)
      \<and> subseq (queue (durable s)) (requestQueue s))"

text \<open>A result that has been written and is gone from memory and from the file.\<close>

definition consumed :: "state \<Rightarrow> string \<Rightarrow> bool" where
  "consumed s jid =
     (jid \<in> set (persisted_ids (trace s)) \<and> jid \<notin> keys (resultsStore s) \<and> jid \<notin> keys (results (durable s)))"

section \<open>Example inputs\<close>

text \<open>Endpoints that always reject with an error, and an idle machine.\<close>

definition always_timeout :: "nat \<Rightarrow> endpoints" where
  "always_timeout k =
     \<lparr> getSource = (\<lambda>d. Rejected (JObj [(''message'', JStr ''timeout'')])),
       solveTurnstileMin = (\<lambda>d. Rejected (JObj [(''message'', JStr ''timeout'')])),
       solveTurnstileMax = (\<lambda>d. Rejected (JObj [(''message'', JStr ''timeout'')])),
       wafSession = (\<lambda>d. Rejected (JObj [(''message'', JStr ''timeout'')])) \<rparr>"

definition idle :: "nat \<Rightarrow> pidstats" where
  "idle k = \<lparr> cpu = 40, memory = 0 \<rparr>"

definition source_request :: jsval where
  "source_request = JObj [(''mode'', JStr ''source'')]"

text \<open>A configuration without token, with \<^verbatim>\<open>SKIP_LAUNCH=true\<close>, and a validator that
  accepts every body; a submission of a \<^verbatim>\<open>source\<close> job.\<close>

definition open_config :: config where
  "open_config =
     \<lparr> env = (\<lambda>k. if k = ''SKIP_LAUNCH'' then Some ''true'' else None),
       reqValidate = (\<lambda>d. JBool True),
       ToNumber = (\<lambda>v. None) \<rparr>"

definition source_post :: request where
  "source_post = \<lparr> body = source_request, rnd = ''ab'', browser = False, stats = \<lparr> cpu = 40, memory = 0 \<rparr> \<rparr>"

text \<open>The state after one submission has been accepted, popped, and given up on.\<close>

definition served_once :: state where
  "served_once =
     run open_config
       [(1001, Submit source_post), (1002, Poll 0 (idle 0)), (1003, Exec 0 always_timeout idle)]
       (first_start 1000)"

text \<open>The state after the first submission has been accepted.\<close>

definition queued_once :: state where
  "queued_once = run open_config [(1001, Submit source_post)] (first_start 1000)"

text \<open>A second submission, and the state with both waiting.\<close>

definition second_post :: request where
  "second_post = \<lparr> body = source_request, rnd = ''cd'', browser = False, stats = \<lparr> cpu = 40, memory = 0 \<rparr> \<rparr>"

definition two_queued :: state where
  "two_queued = run open_config [(1001, Submit source_post), (1002, Submit second_post)] (first_start 1000)"

text \<open>A machine whose \<^verbatim>\<open>database.json\<close> is cut off in the middle.\<close>

definition corrupted :: state where
  "corrupted = installed \<lparr> dbfile := Corrupt ''{ \"queue\": ['' \<rparr>"

text \<open>An environment that sets variables for the threshold, the core count, the retry
  maximum and the retry delay (the server reads none of them, whatever their names), and
  a CPU sample of 240 percent.\<close>

definition tuned_config :: config where
  "tuned_config =
     \<lparr> env = (\<lambda>k. if k = ''SKIP_LAUNCH'' then Some ''true''
                  else if k = ''cpuThreshold'' then Some ''0.5''
                  else if k = ''vCPU'' then Some ''2''
                  else if k = ''maxRetry'' then Some ''1''
                  else if k = ''retryDelay'' then Some ''100''
                  else None),
       reqValidate = (\<lambda>d. JBool True),
       ToNumber = (\<lambda>v. None) \<rparr>"

definition loaded_sample :: pidstats where
  "loaded_sample = \<lparr> cpu = 240, memory = 0 \<rparr>"

text \<open>The variant without persistence, just started.\<close>

definition index_start :: index_state where
  "index_start = \<lparr> requestQueue_i = [], processingQueue_i = False, resultsStore_i = [], console_i = [] \<rparr>"

text \<open>The events that lead to \<open>served_once\<close>, and what happens after its result has been
  read.\<close>

definition served_events :: "(nat \<times> event) list" where
  "served_events =
     [(1001, Submit source_post), (1002, Poll 0 (idle 0)), (1003, Exec 0 always_timeout idle)]"

definition later_events :: "(nat \<times> event) list" where
  "later_events =
     [(2001, Submit second_post), (2002, Poll 0 (idle 0)), (2003, Exec 0 always_timeout idle),
      (2004, Sweep), (2005, Restart)]"

text \<open>The job of a submission with the body \<open>source_request\<close>, and the result of
  giving up on it while \<open>n\<close> jobs wait.\<close>

definition source_job :: "string \<Rightarrow> nat \<Rightarrow> job" where
  "source_job jid t = \<lparr> data = source_request, jobId = jid, enqueuedAt = t \<rparr>"

definition gave_up :: "nat \<Rightarrow> jsval" where
  "gave_up n =
     JObj [(''success'', JBool False), (''code'', JNum 200),
           (''message'', JStr ''Failed after 5 retries''),
           (''queueLength'', JNum (of_nat n)),
           (''cpu'', cpu_json (getCpuStats (idle 5)))]"

text \<open>A morning with three submissions: the first job has been executed, the second
  is held for execution, the third waits.\<close>

definition third_post :: request where
  "third_post = \<lparr> body = source_request, rnd = ''ef'', browser = False, stats = \<lparr> cpu = 40, memory = 0 \<rparr> \<rparr>"

definition morning :: "(nat \<times> event) list" where
  "morning =
     [(1001, Submit source_post), (1002, Submit second_post), (1003, Submit third_post),
      (1004, Poll 0 (idle 0)), (1005, Exec 0 always_timeout idle), (1006, Poll 0 (idle 0))]"

text \<open>A run in which the disk is full while the worker removes the first job from the
  stored queue; its continuation, in which the disk has room again and the job is
  executed; and the continuation of that: a second job is submitted and served, and the
  server is restarted and goes on working.\<close>

definition removal_refused :: "(nat \<times> event) list" where
  "removal_refused = [(1001, Submit source_post), (1002, Disk False), (1003, Poll 0 (idle 0))]"

definition failed_removal :: "(nat \<times> event) list" where
  "failed_removal = removal_refused @ [(1004, Disk True), (1005, Exec 0 always_timeout idle)]"

definition reprocessed :: "(nat \<times> event) list" where
  "reprocessed =
     failed_removal @
     [(1006, Submit second_post), (1007, Poll 0 (idle 0)), (1008, Exec 0 always_timeout idle),
      (1009, Restart), (1010, Poll 0 (idle 0)), (1011, Exec 0 always_timeout idle)]"

text \<open>Two submissions in the same millisecond that draw the same random string.\<close>

definition same_instant :: "(nat \<times> event) list" where
  "same_instant = [(1001, Submit source_post), (1001, Submit source_post)]"

text \<open>The state \<open>served_once\<close> on a disk that has become full.\<close>

definition served_disk_full :: state where
  "served_disk_full = step open_config (1500, Disk False) served_once"

text \<open>A state that holds a result with a \<^verbatim>\<open>finishedAt\<close> of 2000, in memory and in the
  file, as no run of the server produces it.\<close>

definition stamped :: state where
  "stamped =
     (first_start 1000)
       \<lparr> dbfile := Parsed \<lparr> p_queue = Some [],
                             p_results = Some [(''7-x'', JObj [(''code'', JNum 200), (''finishedAt'', JNum 2000)])],
                             p_meta = None \<rparr>,
         resultsStore := [(''7-x'', JObj [(''code'', JNum 200), (''finishedAt'', JNum 2000)])] \<rparr>"

section \<open>Facts about the retry loop\<close>

lemma show_nat_5: "show_nat 5 = ''5''"
  by (simp add: show_nat.simps digit_char_def)

text \<open>When every attempt from \<open>i\<close> on ends with code 500, the loop makes all the
  remaining attempts, sleeps after each, and gives up.\<close>

lemma retry_from_all_fail:
  assumes "\<forall>k. i \<le> k \<and> k < n \<longrightarrow> (\<exists>r. processRequest (eps k) d = Inr r \<and> jget ''code'' r = JNum 500)"
      and "i \<le> n"
  shows "invocations (retry_from eps samples qlen d n delay i) = n - i
       \<and> slept (retry_from eps samples qlen d n delay i) = (n - i) * delay
       \<and> returned (retry_from eps samples qlen d n delay i) = Inr (JObj
             [(''success'', JBool False),
              (''code'', JNum 200),
              (''message'', JStr (''Failed after '' @ show_nat n @ '' retries'')),
              (''queueLength'', JNum (of_nat qlen)),
              (''cpu'', cpu_json (getCpuStats (samples n)))])"
  using assms
proof (induction eps samples qlen d n delay i rule: retry_from.induct)
  case (1 eps samples qlen d maxRetry delay i)
  show ?case
  proof (cases "i < maxRetry")
    case False
    with 1(3) have "i = maxRetry" by simp
    then show ?thesis by (simp add: retry_from.simps)
  next
    case True
    from 1(2) True obtain r where r: "processRequest (eps i) d = Inr r" "jget ''code'' r = JNum 500"
      by auto
    have IH: "invocations (retry_from eps samples qlen d maxRetry delay (Suc i)) = maxRetry - Suc i
       \<and> slept (retry_from eps samples qlen d maxRetry delay (Suc i)) = (maxRetry - Suc i) * delay
       \<and> returned (retry_from eps samples qlen d maxRetry delay (Suc i)) = Inr (JObj
             [(''success'', JBool False),
              (''code'', JNum 200),
              (''message'', JStr (''Failed after '' @ show_nat maxRetry @ '' retries'')),
              (''queueLength'', JNum (of_nat qlen)),
              (''cpu'', cpu_json (getCpuStats (samples maxRetry)))])"
      using 1(1)[OF True r(1) refl] r(2) 1(2) True by auto
    have unfolded: "retry_from eps samples qlen d maxRetry delay i =
       (let rest = retry_from eps samples qlen d maxRetry delay (Suc i) in
                rest \<lparr> invocations := Suc (invocations rest),
                       lines := LogRetry (i + 1) (jget ''mode'' d) # lines rest,
                       slept := delay + slept rest \<rparr>)"
      using True r by (subst retry_from.simps) (simp add: Let_def)
    from True have "Suc (maxRetry - Suc i) = maxRetry - i" by simp
    moreover from True have "delay + (maxRetry - Suc i) * delay = (maxRetry - i) * delay"
      by (metis Suc_diff_Suc mult_Suc)
    ultimately show ?thesis using IH by (simp add: unfolded Let_def)
  qed
qed

lemma always_timeout_source:
  "processRequest (always_timeout k) source_request =
     Inr (JObj [(''code'', JNum 500), (''message'', JStr ''timeout'')])"
  by (simp add: processRequest_def always_timeout_def source_request_def settle_def jget_def)

text \<open>
  Claim C2. When each of the five calls of \<^verbatim>\<open>processRequest\<close> for a job ends with the
  failure outcome (code 500), \<^verbatim>\<open>retryUntilSuccessOrGiveUp\<close> with its default
  \<^verbatim>\<open>maxRetry = 5\<close> calls \<^verbatim>\<open>processRequest\<close> exactly five times and then returns a result
  with \<^verbatim>\<open>success: false\<close>, \<^verbatim>\<open>code: 200\<close> and the message ``Failed after 5 retries''.
\<close>

theorem C2_retry_bound:
  assumes "\<forall>k. k < 5 \<longrightarrow> (\<exists>r. processRequest (eps k) d = Inr r \<and> jget ''code'' r = JNum 500)"
  shows "invocations (retryUntilSuccessOrGiveUp eps samples qlen d 5 delay) = 5
       \<and> (\<exists>res. returned (retryUntilSuccessOrGiveUp eps samples qlen d 5 delay) = Inr res
              \<and> jget ''success'' res = JBool False
              \<and> jget ''code'' res = JNum 200
              \<and> jget ''message'' res = JStr ''Failed after 5 retries'')"
proof -
  have "\<forall>k. 0 \<le> k \<and> k < 5 \<longrightarrow> (\<exists>r. processRequest (eps k) d = Inr r \<and> jget ''code'' r = JNum 500)"
    using assms by simp
  from retry_from_all_fail[OF this, of samples qlen delay]
  show ?thesis
    by (simp add: retryUntilSuccessOrGiveUp_def jget_def show_nat_5)
qed

theorem C2_retry_bound_witness:
  "invocations (retryUntilSuccessOrGiveUp always_timeout idle 0 source_request 5 2000) = 5
   \<and> (\<exists>res. returned (retryUntilSuccessOrGiveUp always_timeout idle 0 source_request 5 2000) = Inr res
          \<and> jget ''success'' res = JBool False
          \<and> jget ''code'' res = JNum 200
          \<and> jget ''message'' res = JStr ''Failed after 5 retries'')"
proof -
  have "\<forall>k. k < 5 \<longrightarrow> (\<exists>r. processRequest (always_timeout k) source_request = Inr r \<and> jget ''code'' r = JNum 500)"
    by (simp add: always_timeout_source jget_def)
  from C2_retry_bound[OF this] show ?thesis .
qed

section \<open>Facts about the store\<close>

lemma readDb_returns: "fst (snd (readDb t s)) = durable s"
  by (simp add: readDb_def durable_def Let_def writeJsonAtomic_def split: dbfile.splits)

lemma readDb_Parsed: "dbfile s = Parsed p \<Longrightarrow> readDb t s = (s, heal p, False)"
  by (simp add: readDb_def)

lemma queueWriteDb_Parsed:
  "dbfile s = Parsed p \<Longrightarrow> writable s \<Longrightarrow>
   queueWriteDb t m s =
     s \<lparr> dbfile := Parsed \<lparr> p_queue = Some (queue (updateFn m (heal p))),
                            p_results = Some (results (updateFn m (heal p))),
                            p_meta = Some \<lparr> version = 1, lastWriteAt = Some t \<rparr> \<rparr> \<rparr>"
  by (simp add: queueWriteDb_def readDb_def writeJsonAtomic_def Let_def)

lemma parsed_queueWriteDb: "writable s \<Longrightarrow> \<exists>p. dbfile (queueWriteDb t m s) = Parsed p"
  by (simp add: queueWriteDb_def readDb_def writeJsonAtomic_def Let_def split: dbfile.splits)

lemma queueWriteDb_refused:
  "\<not> writable s \<Longrightarrow> queueWriteDb t m s = s \<lparr> console := console s @ [LogDbWriteError] \<rparr>"
  by (simp add: queueWriteDb_def)

lemma resultsStore_queueWriteDb: "resultsStore (queueWriteDb t m s) = resultsStore s"
  by (simp add: queueWriteDb_def readDb_def writeJsonAtomic_def Let_def split: dbfile.splits)

lemma map_of_delete_None: "map_of (AList.delete k al) k = None"
  by (simp add: AList.delete_conv')

lemma durable_queueWriteDb_TakeResult:
  "writable s \<Longrightarrow> map_of (results (durable (queueWriteDb t (TakeResult jid) s))) jid = None"
  by (simp add: queueWriteDb_def readDb_def writeJsonAtomic_def durable_def heal_def updateFn_def Let_def
        map_of_delete_None split: dbfile.splits)

section \<open>The acknowledgement of a submission\<close>

text \<open>
  Claim C10. Whenever \<^verbatim>\<open>POST /cf-clearance-scraper\<close> answers with status 200, that is,
  whenever it accepts the submission, the body carries \<^verbatim>\<open>success: false\<close> together with
  \<^verbatim>\<open>status: "queued"\<close>: the \<^verbatim>\<open>success\<close> field of the acknowledgement does not tell an
  accepted job from a failure. This holds of the server with the file and of the
  variant without it.
\<close>

theorem C10_ack_success_false:
  "(status (snd (post_cf_clearance_scraper cfg t req s)) = 200 \<longrightarrow>
      jget ''success'' (payload (snd (post_cf_clearance_scraper cfg t req s))) = JBool False
      \<and> jget ''status'' (payload (snd (post_cf_clearance_scraper cfg t req s))) = JStr ''queued'')
   \<and> (status (snd (post_cf_clearance_scraper_index cfg t req si)) = 200 \<longrightarrow>
      jget ''success'' (payload (snd (post_cf_clearance_scraper_index cfg t req si))) = JBool False
      \<and> jget ''status'' (payload (snd (post_cf_clearance_scraper_index cfg t req si))) = JStr ''queued'')"
  by (simp add: post_cf_clearance_scraper_def post_cf_clearance_scraper_index_def Let_def jget_def
        split: if_splits option.splits)

theorem C10_ack_success_false_witness:
  "status (snd (post_cf_clearance_scraper open_config 1001 source_post (first_start 1000))) = 200
   \<and> jget ''success'' (payload (snd (post_cf_clearance_scraper open_config 1001 source_post (first_start 1000)))) = JBool False
   \<and> jget ''status'' (payload (snd (post_cf_clearance_scraper open_config 1001 source_post (first_start 1000)))) = JStr ''queued''
   \<and> status (snd (post_cf_clearance_scraper_index open_config 1001 source_post index_start)) = 200
   \<and> jget ''success'' (payload (snd (post_cf_clearance_scraper_index open_config 1001 source_post index_start))) = JBool False
   \<and> jget ''status'' (payload (snd (post_cf_clearance_scraper_index open_config 1001 source_post index_start))) = JStr ''queued''"
proof -
  have h: "status (snd (post_cf_clearance_scraper open_config 1001 source_post (first_start 1000))) = 200"
    by (simp add: post_cf_clearance_scraper_def open_config_def source_post_def Let_def authToken_def)
  have hi: "status (snd (post_cf_clearance_scraper_index open_config 1001 source_post index_start)) = 200"
    by (simp add: post_cf_clearance_scraper_index_def open_config_def source_post_def Let_def authToken_def)
  from C10_ack_success_false[of open_config 1001 source_post "first_start 1000" index_start] h hi
  show ?thesis by simp
qed

section \<open>The consuming read\<close>

lemma get_first:
  assumes "resolved s jid"
  shows "\<exists>v. stored_result s jid = Some v
           \<and> snd (get_cf_clearance_result t jid s) = \<lparr> status = 200, payload = v \<rparr>
           \<and> (\<exists>s1. fst (get_cf_clearance_result t jid s) = queueWriteDb t (TakeResult jid) s1
                  \<and> map_of (resultsStore s1) jid = None)"
proof (cases "held (resultsStore s) jid")
  case True
  then obtain v where v: "map_of (resultsStore s) jid = Some v" "truthy v"
    by (auto simp: held_def split: option.splits)
  show ?thesis
    using True v
    by (auto simp: get_cf_clearance_result_def stored_result_def Let_def map_of_delete_None)
next
  case False
  with assms have h: "held (results (durable s)) jid" by (simp add: resolved_def)
  then obtain v where v: "map_of (results (durable s)) jid = Some v" "truthy v"
    by (auto simp: held_def split: option.splits)
  obtain s' d sh where r: "readDb t s = (s', d, sh)" by (cases "readDb t s") auto
  with readDb_returns[of t s] have d: "d = durable s" by simp
  show ?thesis
    using False v r d
    by (auto simp: get_cf_clearance_result_def stored_result_def Let_def map_of_delete_None
          AList.update_conv')
qed

lemma get_absent:
  assumes "dbfile s = Parsed p" "map_of (resultsStore s) jid = None" "map_of (results (heal p)) jid = None"
  shows "get_cf_clearance_result t jid s = (s, \<lparr> status = 200, payload = pending_body \<rparr>)"
  using assms
  by (auto simp: get_cf_clearance_result_def readDb_Parsed held_def Let_def split: option.splits)

section \<open>An example run\<close>

lemmas model_defs =
  run_def step_def first_start_def installed_def boot_def ensureDb_def readDb_def writeJsonAtomic_def
  default_stamped_def DEFAULT_meta_def heal_def queueWriteDb_def updateFn_def queue_in_place_def
  results_in_place_def processQueue_def processQueue_poll_def processQueue_run_def leave_def next_turn_def
  post_cf_clearance_scraper_def get_cf_clearance_result_def housekeeping_def fresh_process_def
  authToken_def TTL_MS_def held_def canProcessNow_def getCpuStats_def vCPU_def cpuThreshold_def

lemma give_up_example:
  "returned (retry_default always_timeout idle 0 source_request) =
     Inr (JObj [(''success'', JBool False), (''code'', JNum 200),
                (''message'', JStr ''Failed after 5 retries''),
                (''queueLength'', JNum 0),
                (''cpu'', cpu_json (getCpuStats (idle 5)))])
   \<and> invocations (retry_default always_timeout idle 0 source_request) = 5"
proof -
  have "\<forall>k. 0 \<le> k \<and> k < 5 \<longrightarrow> (\<exists>r. processRequest (always_timeout k) source_request = Inr r \<and> jget ''code'' r = JNum 500)"
    by (simp add: always_timeout_source jget_def)
  from retry_from_all_fail[OF this, of idle 0 2000]
  show ?thesis by (simp add: retry_default_def retryUntilSuccessOrGiveUp_def show_nat_5)
qed

lemma served_once_results:
  "resultsStore served_once = [(''1001-ab'', JObj [(''success'', JBool False), (''code'', JNum 200),
                (''message'', JStr ''Failed after 5 retries''),
                (''queueLength'', JNum 0),
                (''cpu'', cpu_json (getCpuStats (idle 5)))])]"
  by (simp add: served_once_def model_defs open_config_def source_post_def idle_def Let_def
        show_nat.simps digit_char_def give_up_example)

lemma served_once_resolved: "resolved served_once ''1001-ab''"
  by (simp add: resolved_def held_def served_once_results truthy_def)

section \<open>What each operation leaves alone, and the shape of its result\<close>

lemma queueWriteDb_frame [simp]:
  "requestQueue (queueWriteDb t m s) = requestQueue s"
  "processingQueue (queueWriteDb t m s) = processingQueue s"
  "workers (queueWriteDb t m s) = workers s"
  "console (queueWriteDb t m s) = console s @ (if writable s then [] else [LogDbWriteError])"
  "issued (queueWriteDb t m s) = issued s"
  "arrivals (queueWriteDb t m s) = arrivals s"
  "started (queueWriteDb t m s) = started s"
  "submitted (queueWriteDb t m s) = submitted s"
  "begun (queueWriteDb t m s) = begun s"
  "trace (queueWriteDb t m s) = trace s"
  "writable (queueWriteDb t m s) = writable s"
  by (simp_all add: queueWriteDb_def readDb_def writeJsonAtomic_def Let_def split: dbfile.splits)

lemma readDb_frame [simp]:
  "requestQueue (fst (readDb t s)) = requestQueue s"
  "processingQueue (fst (readDb t s)) = processingQueue s"
  "resultsStore (fst (readDb t s)) = resultsStore s"
  "workers (fst (readDb t s)) = workers s"
  "console (fst (readDb t s)) = console s"
  "issued (fst (readDb t s)) = issued s"
  "arrivals (fst (readDb t s)) = arrivals s"
  "started (fst (readDb t s)) = started s"
  "submitted (fst (readDb t s)) = submitted s"
  "begun (fst (readDb t s)) = begun s"
  "trace (fst (readDb t s)) = trace s"
  "writable (fst (readDb t s)) = writable s"
  by (simp_all add: readDb_def writeJsonAtomic_def Let_def split: dbfile.splits)

section \<open>The single-flight guard\<close>

lemma single_flight_processQueue: "single_flight s \<Longrightarrow> single_flight (processQueue s)"
  by (auto simp: single_flight_def processQueue_def)

lemma single_flight_leave:
  "single_flight s \<Longrightarrow> k < length (workers s) \<Longrightarrow> single_flight (leave k s)"
  by (auto simp: single_flight_def leave_def)

lemma single_flight_cong:
  "workers s' = workers s \<Longrightarrow> processingQueue s' = processingQueue s \<Longrightarrow> single_flight s' = single_flight s"
  by (simp add: single_flight_def)

lemma single_flight_set:
  "single_flight s \<Longrightarrow> k < length (workers s) \<Longrightarrow> workers s' = (workers s)[k := w] 
    \<Longrightarrow> processingQueue s' = processingQueue s \<Longrightarrow> single_flight s'"
  by (auto simp: single_flight_def)

lemma post_cases [case_names rejected accepted]:
  obtains "fst (post_cf_clearance_scraper cfg t req s) = s"
  | enqueued where
      "enqueued = \<lparr> data = body req, jobId = show_nat t @ ''-'' @ rnd req, enqueuedAt = t \<rparr>"
      "fst (post_cf_clearance_scraper cfg t req s) =
         processQueue (queueWriteDb t (PushJob enqueued)
           (s \<lparr> requestQueue := requestQueue s @ [enqueued],
                issued := issued s @ [jobId enqueued],
                arrivals := arrivals s @ [enqueued],
                submitted := submitted s @ [enqueued],
                console := console s @ [LogJobQueued (jobId enqueued) (Suc (length (requestQueue s)))] \<rparr>))"
proof (cases "reqValidate cfg (body req) \<noteq> JBool True
            \<or> (case authToken cfg of None \<Rightarrow> False | Some tok \<Rightarrow> jget ''authToken'' (body req) \<noteq> JStr tok)
            \<or> (env cfg ''SKIP_LAUNCH'' \<noteq> Some ''true'' \<and> \<not> browser req)")
  case True
  then have "fst (post_cf_clearance_scraper cfg t req s) = s"
    by (auto simp: post_cf_clearance_scraper_def Let_def)
  then show ?thesis by (rule that(1))
next
  case False
  then have "fst (post_cf_clearance_scraper cfg t req s) =
         processQueue (queueWriteDb t (PushJob \<lparr> data = body req, jobId = show_nat t @ ''-'' @ rnd req, enqueuedAt = t \<rparr>)
           (s \<lparr> requestQueue := requestQueue s @ [\<lparr> data = body req, jobId = show_nat t @ ''-'' @ rnd req, enqueuedAt = t \<rparr>],
                issued := issued s @ [show_nat t @ ''-'' @ rnd req],
                arrivals := arrivals s @ [\<lparr> data = body req, jobId = show_nat t @ ''-'' @ rnd req, enqueuedAt = t \<rparr>],
                submitted := submitted s @ [\<lparr> data = body req, jobId = show_nat t @ ''-'' @ rnd req, enqueuedAt = t \<rparr>],
                console := console s @ [LogJobQueued (show_nat t @ ''-'' @ rnd req) (Suc (length (requestQueue s)))] \<rparr>))"
    by (auto simp: post_cf_clearance_scraper_def Let_def)
  then show ?thesis by (intro that(2)[of "\<lparr> data = body req, jobId = show_nat t @ ''-'' @ rnd req, enqueuedAt = t \<rparr>"]) simp_all
qed

lemma single_flight_post:
  "single_flight s \<Longrightarrow> single_flight (fst (post_cf_clearance_scraper cfg t req s))"
proof (cases rule: post_cases[of cfg t req s])
  case rejected
  assume "single_flight s"
  then show ?thesis using rejected by simp
next
  case (accepted enqueued)
  assume "single_flight s"
  then show ?thesis
    unfolding accepted(2) by (intro single_flight_processQueue) (simp add: single_flight_def)
qed

lemma get_frame:
  "workers (fst (get_cf_clearance_result t jid s)) = workers s"
  "processingQueue (fst (get_cf_clearance_result t jid s)) = processingQueue s"
  "requestQueue (fst (get_cf_clearance_result t jid s)) = requestQueue s"
  "arrivals (fst (get_cf_clearance_result t jid s)) = arrivals s"
  "started (fst (get_cf_clearance_result t jid s)) = started s"
  "trace (fst (get_cf_clearance_result t jid s)) = trace s"
  "issued (fst (get_cf_clearance_result t jid s)) = issued s"
  "submitted (fst (get_cf_clearance_result t jid s)) = submitted s"
  "begun (fst (get_cf_clearance_result t jid s)) = begun s"
  "writable (fst (get_cf_clearance_result t jid s)) = writable s"
  by (cases "readDb t s"; use readDb_frame[of t s] in \<open>simp add: get_cf_clearance_result_def Let_def split: option.splits\<close>)+

lemma housekeeping_frame:
  "workers (housekeeping cfg t s) = workers s"
  "processingQueue (housekeeping cfg t s) = processingQueue s"
  "requestQueue (housekeeping cfg t s) = requestQueue s"
  "arrivals (housekeeping cfg t s) = arrivals s"
  "started (housekeeping cfg t s) = started s"
  "trace (housekeeping cfg t s) = trace s"
  "issued (housekeeping cfg t s) = issued s"
  "submitted (housekeeping cfg t s) = submitted s"
  "begun (housekeeping cfg t s) = begun s"
  "writable (housekeeping cfg t s) = writable s"
  by (simp_all add: housekeeping_def Let_def split: prod.splits)

lemma poll_cases [case_names idle broken popped]:
  obtains "processQueue_poll t k sample s = s"
  | "k < length (workers s)" "workers s ! k = Polling" "requestQueue s = []"
    "processQueue_poll t k sample s = leave k (s \<lparr> console := console s @ [LogProcessQueueError] \<rparr>)"
  | j rest where "k < length (workers s)" "workers s ! k = Polling" "requestQueue s = j # rest"
    "processQueue_poll t k sample s =
       (queueWriteDb t (RemoveJob (jobId j)) (s \<lparr> requestQueue := rest, trace := trace s @ [Popped (jobId j)] \<rparr>))
         \<lparr> console := console s @ (if writable s then [] else [LogDbWriteError])
                       @ [LogProcessJob (jobId j) (length rest)],
           workers := (workers s) [k := Running j],
           trace := trace s @ Popped (jobId j) # (if writable s then [RemovalPersisted (jobId j)] else []) \<rparr>"
proof (cases "k < length (workers s) \<and> workers s ! k = Polling \<and> canProcessNow sample")
  case False
  then have "processQueue_poll t k sample s = s" by (auto simp: processQueue_poll_def)
  then show ?thesis by (rule that(1))
next
  case True
  show ?thesis
  proof (cases "requestQueue s")
    case Nil
    with True show ?thesis by (intro that(2)) (simp_all add: processQueue_poll_def)
  next
    case (Cons j rest)
    with True show ?thesis by (intro that(3)[of j rest]) (simp_all add: processQueue_poll_def Let_def)
  qed
qed

lemma run_cases [case_names idle threw stored]:
  obtains "processQueue_run t k eps samples s = s"
  | j rep where "k < length (workers s)" "workers s ! k = Running j"
      "rep = retry_default eps samples (length (requestQueue s)) (data j)"
      "processQueue_run t k eps samples s =
         leave k (s \<lparr> started := started s @ [j],
                      begun := begun s @ [j],
                      trace := trace s @ replicate (invocations rep) (Invoked (jobId j)),
                      console := console s @ lines rep @ [LogProcessQueueError] \<rparr>)"
  | j rep result where "k < length (workers s)" "workers s ! k = Running j"
      "rep = retry_default eps samples (length (requestQueue s)) (data j)"
      "returned rep = Inr result"
      "processQueue_run t k eps samples s =
         next_turn k
           ((queueWriteDb t (PutResult (jobId j) result)
               (s \<lparr> console := console s @ lines rep,
                    started := started s @ [j],
                    begun := begun s @ [j],
                    resultsStore := AList.update (jobId j) result (resultsStore s) \<rparr>))
            \<lparr> trace := trace s @ replicate (invocations rep) (Invoked (jobId j))
                        @ OutcomeComputed (jobId j) # ResultCached (jobId j)
                          # (if writable s then [ResultPersisted (jobId j)] else []) \<rparr>)"
proof (cases "k < length (workers s)")
  case False
  then have "processQueue_run t k eps samples s = s" by (simp add: processQueue_run_def)
  then show ?thesis by (rule that(1))
next
  case k: True
  show ?thesis
  proof (cases "workers s ! k")
    case Polling
    with k have "processQueue_run t k eps samples s = s" by (simp add: processQueue_run_def)
    then show ?thesis by (rule that(1))
  next
    case (Running j)
    show ?thesis
    proof (cases "returned (retry_default eps samples (length (requestQueue s)) (data j))")
      case (Inl e)
      with k Running show ?thesis
        by (intro that(2)[of j "retry_default eps samples (length (requestQueue s)) (data j)"])
           (simp_all add: processQueue_run_def Let_def)
    next
      case (Inr result)
      with k Running show ?thesis
        by (intro that(3)[of j "retry_default eps samples (length (requestQueue s)) (data j)" result])
           (simp_all add: processQueue_run_def Let_def queueWriteDb_def readDb_def writeJsonAtomic_def
               split: dbfile.splits)
    qed
  qed
qed

text \<open>The same shapes while the file system accepts writes.\<close>

lemma poll_cases_w [consumes 1, case_names idle broken popped]:
  assumes "writable s"
  obtains "processQueue_poll t k sample s = s"
  | "k < length (workers s)" "workers s ! k = Polling" "requestQueue s = []"
    "processQueue_poll t k sample s = leave k (s \<lparr> console := console s @ [LogProcessQueueError] \<rparr>)"
  | j rest where "k < length (workers s)" "workers s ! k = Polling" "requestQueue s = j # rest"
    "processQueue_poll t k sample s =
       (queueWriteDb t (RemoveJob (jobId j)) (s \<lparr> requestQueue := rest, trace := trace s @ [Popped (jobId j)] \<rparr>))
         \<lparr> console := console s @ [LogProcessJob (jobId j) (length rest)],
           workers := (workers s) [k := Running j],
           trace := trace s @ [Popped (jobId j), RemovalPersisted (jobId j)] \<rparr>"
proof (cases rule: poll_cases[of t k sample s])
  case idle
  then show ?thesis by (rule that(1))
next
  case broken
  then show ?thesis by (intro that(2))
next
  case (popped j rest)
  with assms show ?thesis by (intro that(3)[of j rest]) simp_all
qed

lemma run_cases_w [consumes 1, case_names idle threw stored]:
  assumes "writable s"
  obtains "processQueue_run t k eps samples s = s"
  | j rep where "k < length (workers s)" "workers s ! k = Running j"
      "rep = retry_default eps samples (length (requestQueue s)) (data j)"
      "processQueue_run t k eps samples s =
         leave k (s \<lparr> started := started s @ [j],
                      begun := begun s @ [j],
                      trace := trace s @ replicate (invocations rep) (Invoked (jobId j)),
                      console := console s @ lines rep @ [LogProcessQueueError] \<rparr>)"
  | j rep result where "k < length (workers s)" "workers s ! k = Running j"
      "rep = retry_default eps samples (length (requestQueue s)) (data j)"
      "returned rep = Inr result"
      "processQueue_run t k eps samples s =
         next_turn k
           ((queueWriteDb t (PutResult (jobId j) result)
               (s \<lparr> console := console s @ lines rep,
                    started := started s @ [j],
                    begun := begun s @ [j],
                    resultsStore := AList.update (jobId j) result (resultsStore s) \<rparr>))
            \<lparr> trace := trace s @ replicate (invocations rep) (Invoked (jobId j))
                        @ [OutcomeComputed (jobId j), ResultCached (jobId j), ResultPersisted (jobId j)] \<rparr>)"
proof (cases rule: run_cases[of t k eps samples s])
  case idle
  then show ?thesis by (rule that(1))
next
  case (threw j rep)
  then show ?thesis by (intro that(2)[of j rep])
next
  case (stored j rep result)
  with assms show ?thesis by (intro that(3)[of j rep result]) simp_all
qed

lemma single_flight_next_turn:
  "single_flight s \<Longrightarrow> k < length (workers s) \<Longrightarrow> single_flight (next_turn k s)"
  by (auto simp: next_turn_def single_flight_leave) (auto simp: single_flight_def)

lemma single_flight_poll: "single_flight s \<Longrightarrow> single_flight (processQueue_poll t k sample s)"
proof (cases rule: poll_cases[of t k sample s])
  case idle
  assume "single_flight s" then show ?thesis using idle by simp
next
  case broken
  assume "single_flight s"
  then show ?thesis
    unfolding broken(4) using broken(1) by (intro single_flight_leave) (simp_all add: single_flight_def)
next
  case (popped j rest)
  assume "single_flight s"
  then show ?thesis
    unfolding popped(4) using popped(1) by (auto simp: single_flight_def)
qed

lemma single_flight_run_step: "single_flight s \<Longrightarrow> single_flight (processQueue_run t k eps samples s)"
proof (cases rule: run_cases[of t k eps samples s])
  case idle
  assume "single_flight s" then show ?thesis using idle by simp
next
  case (threw j rep)
  assume "single_flight s"
  then show ?thesis
    unfolding threw(4) using threw(1) by (intro single_flight_leave) (simp_all add: single_flight_def)
next
  case (stored j rep result)
  assume "single_flight s"
  then show ?thesis
    unfolding stored(5) using stored(1) by (intro single_flight_next_turn) (simp_all add: single_flight_def)
qed

lemma ensureDb_frame [simp]:
  "requestQueue (ensureDb t s) = requestQueue s"
  "processingQueue (ensureDb t s) = processingQueue s"
  "resultsStore (ensureDb t s) = resultsStore s"
  "workers (ensureDb t s) = workers s"
  "console (ensureDb t s) = console s"
  "issued (ensureDb t s) = issued s"
  "arrivals (ensureDb t s) = arrivals s"
  "started (ensureDb t s) = started s"
  "submitted (ensureDb t s) = submitted s"
  "begun (ensureDb t s) = begun s"
  "trace (ensureDb t s) = trace s"
  "writable (ensureDb t s) = writable s"
  by (simp_all add: ensureDb_def writeJsonAtomic_def)

lemma boot_cases [case_names empty loaded]:
  obtains d :: db where "d = fst (snd (readDb t (ensureDb t s)))" "queue d = []"
      "boot t s = (fst (readDb t (ensureDb t s)))
                    \<lparr> requestQueue := [], resultsStore := results d, arrivals := [] \<rparr>"
  | d :: db where "d = fst (snd (readDb t (ensureDb t s)))" "queue d \<noteq> []"
      "boot t s = processQueue ((fst (readDb t (ensureDb t s)))
                    \<lparr> requestQueue := queue d, resultsStore := results d, arrivals := queue d,
                      console := console s @ [LogLoaded (length (queue d))] \<rparr>)"
proof -
  obtain s1 d sh where r: "readDb t (ensureDb t s) = (s1, d, sh)"
    by (cases "readDb t (ensureDb t s)") auto
  have c: "console s1 = console s"
    using readDb_frame(5)[of t "ensureDb t s"] r by simp
  show ?thesis
  proof (cases "queue d = []")
    case True
    with r show ?thesis by (intro that(1)[of d]) (simp_all add: boot_def Let_def)
  next
    case False
    with r c show ?thesis by (intro that(2)[of d]) (simp_all add: boot_def Let_def)
  qed
qed

lemma single_flight_boot: "single_flight (boot t (fresh_process s))"
proof (cases rule: boot_cases[where t=t and s="fresh_process s"])
  case (empty d)
  then show ?thesis by (simp add: single_flight_def fresh_process_def)
next
  case (loaded d)
  show ?thesis
    unfolding loaded(3)
    by (intro single_flight_processQueue) (simp add: single_flight_def fresh_process_def)
qed

lemma single_flight_step: "single_flight s \<Longrightarrow> single_flight (step cfg te s)"
proof (cases te)
  case (Pair t e)
  assume sf: "single_flight s"
  show ?thesis
  proof (cases e)
    case (Submit req) with Pair sf show ?thesis by (simp add: step_def single_flight_post)
  next
    case (Fetch jid)
    with Pair sf show ?thesis by (simp add: step_def single_flight_def get_frame)
  next
    case (Poll k sample) with Pair sf show ?thesis by (simp add: step_def single_flight_poll)
  next
    case (Exec k eps samples) with Pair sf show ?thesis by (simp add: step_def single_flight_run_step)
  next
    case Sweep
    with Pair sf show ?thesis by (simp add: step_def single_flight_def housekeeping_frame)
  next
    case Restart with Pair show ?thesis by (simp add: step_def single_flight_boot)
  next
    case (Disk b) with Pair sf show ?thesis by (simp add: step_def single_flight_def)
  qed
qed

lemma single_flight_run: "single_flight s \<Longrightarrow> single_flight (run cfg evs s)"
  unfolding run_def by (induction evs arbitrary: s) (simp_all add: single_flight_step)

lemma single_flight_first_start: "single_flight (first_start t)"
  using single_flight_boot[of t installed]
  by (simp add: first_start_def fresh_process_def installed_def)

lemma running_le: "length (concat (map (\<lambda>w. case w of Running j \<Rightarrow> [j] | Polling \<Rightarrow> []) ws)) \<le> length ws"
  by (induction ws) (auto split: wpc.splits)

lemma executing_le_workers: "length (executing s) \<le> length (workers s)"
  unfolding executing_def by (rule running_le)

text \<open>
  Claim C8. A call of \<^verbatim>\<open>processQueue\<close> while the flag is set, or while the queue is
  empty, returns at once and changes nothing. In every state the server reaches from
  its first start, whatever is submitted, read, polled, executed, swept or restarted,
  at most one worker loop is active, the flag is set exactly while there is one, and at
  most one job is held for execution.
\<close>

theorem C8_single_flight:
  "(processingQueue s \<or> requestQueue s = [] \<longrightarrow> processQueue s = s)
   \<and> length (workers (run cfg evs (first_start t0))) \<le> 1
   \<and> length (executing (run cfg evs (first_start t0))) \<le> 1
   \<and> processingQueue (run cfg evs (first_start t0)) = (workers (run cfg evs (first_start t0)) \<noteq> [])"
proof -
  have "single_flight (run cfg evs (first_start t0))"
    by (intro single_flight_run single_flight_first_start)
  then have "length (workers (run cfg evs (first_start t0))) \<le> 1"
    and "processingQueue (run cfg evs (first_start t0)) = (workers (run cfg evs (first_start t0)) \<noteq> [])"
    by (simp_all add: single_flight_def)
  moreover from this(1) executing_le_workers[of "run cfg evs (first_start t0)"]
  have "length (executing (run cfg evs (first_start t0))) \<le> 1" by linarith
  moreover have "processingQueue s \<or> requestQueue s = [] \<longrightarrow> processQueue s = s"
    by (simp add: processQueue_def)
  ultimately show ?thesis by blast
qed

lemma queued_once_busy: "processingQueue queued_once \<and> workers queued_once = [Polling]"
  by (simp add: queued_once_def model_defs open_config_def source_post_def Let_def)

theorem C8_single_flight_witness:
  "processingQueue queued_once
   \<and> processQueue queued_once = queued_once
   \<and> length (workers (run open_config [(1002, Submit source_post), (1003, Poll 0 (idle 0)), (1004, Submit source_post)] queued_once)) \<le> 1
   \<and> length (executing (run open_config [(1002, Submit source_post), (1003, Poll 0 (idle 0)), (1004, Submit source_post)] queued_once)) \<le> 1"
proof -
  have "run open_config [(1002, Submit source_post), (1003, Poll 0 (idle 0)), (1004, Submit source_post)] queued_once
      = run open_config [(1001, Submit source_post), (1002, Submit source_post), (1003, Poll 0 (idle 0)), (1004, Submit source_post)] (first_start 1000)"
    by (simp add: queued_once_def run_def)
  with C8_single_flight[of queued_once open_config
      "[(1001, Submit source_post), (1002, Submit source_post), (1003, Poll 0 (idle 0)), (1004, Submit source_post)]" 1000]
    queued_once_busy
  show ?thesis by simp
qed

section \<open>Order of service\<close>

lemma sole_worker:
  assumes "single_flight s" "k < length (workers s)"
  shows "k = 0 \<and> workers s = [workers s ! 0]"
proof -
  from assms have "length (workers s) = 1" by (simp add: single_flight_def)
  then show ?thesis using assms(2) by (cases "workers s") auto
qed

lemma fifo_cong:
  "arrivals s' = arrivals s \<Longrightarrow> started s' = started s \<Longrightarrow> workers s' = workers s
   \<Longrightarrow> requestQueue s' = requestQueue s \<Longrightarrow> fifo s' = fifo s"
  by (simp add: fifo_def executing_def)

lemma fifo_processQueue: "fifo s \<Longrightarrow> fifo (processQueue s)"
  by (simp add: fifo_def processQueue_def executing_def)

lemma fifo_post: "fifo s \<Longrightarrow> fifo (fst (post_cf_clearance_scraper cfg t req s))"
proof (cases rule: post_cases[of cfg t req s])
  case rejected
  assume "fifo s" then show ?thesis using rejected by simp
next
  case (accepted enqueued)
  assume "fifo s"
  then show ?thesis
    unfolding accepted(2) by (intro fifo_processQueue) (simp add: fifo_def executing_def)
qed

lemma fifo_poll:
  assumes "single_flight s" "fifo s"
  shows "fifo (processQueue_poll t k sample s)"
proof (cases rule: poll_cases[of t k sample s])
  case idle
  then show ?thesis using assms by simp
next
  case broken
  from sole_worker[OF assms(1) broken(1)] broken(2) have ws: "k = 0" "workers s = [Polling]" by simp_all
  show ?thesis
    unfolding broken(4) using assms(2) ws
    by (simp add: fifo_def leave_def executing_def)
next
  case (popped j rest)
  from sole_worker[OF assms(1) popped(1)] popped(2) have ws: "k = 0" "workers s = [Polling]" by simp_all
  show ?thesis
    unfolding popped(4) using assms(2) popped(3) ws
    by (simp add: fifo_def executing_def)
qed

lemma fifo_run_step:
  assumes "single_flight s" "fifo s"
  shows "fifo (processQueue_run t k eps samples s)"
proof (cases rule: run_cases[of t k eps samples s])
  case idle
  then show ?thesis using assms by simp
next
  case (threw j rep)
  from sole_worker[OF assms(1) threw(1)] threw(2) have ws: "k = 0" "workers s = [Running j]" by simp_all
  show ?thesis
    unfolding threw(4) using assms(2) ws
    by (simp add: fifo_def leave_def executing_def)
next
  case (stored j rep result)
  from sole_worker[OF assms(1) stored(1)] stored(2) have ws: "k = 0" "workers s = [Running j]" by simp_all
  show ?thesis
    unfolding stored(5) using assms(2) ws
    by (simp add: fifo_def next_turn_def leave_def executing_def)
qed

lemma fifo_boot: "fifo (boot t (fresh_process s))"
proof (cases rule: boot_cases[where t=t and s="fresh_process s"])
  case (empty d)
  then show ?thesis by (simp add: fifo_def fresh_process_def executing_def)
next
  case (loaded d)
  show ?thesis
    unfolding loaded(3)
    by (intro fifo_processQueue) (simp add: fifo_def fresh_process_def executing_def)
qed

lemma fifo_step: "single_flight s \<Longrightarrow> fifo s \<Longrightarrow> fifo (step cfg te s)"
proof (cases te)
  case (Pair t e)
  assume sf: "single_flight s" and ff: "fifo s"
  show ?thesis
  proof (cases e)
    case (Submit req) with Pair ff show ?thesis by (simp add: step_def fifo_post)
  next
    case (Fetch jid)
    with Pair ff show ?thesis by (simp add: step_def fifo_def executing_def get_frame)
  next
    case (Poll k sample) with Pair sf ff show ?thesis by (simp add: step_def fifo_poll)
  next
    case (Exec k eps samples) with Pair sf ff show ?thesis by (simp add: step_def fifo_run_step)
  next
    case Sweep
    with Pair ff show ?thesis by (simp add: step_def fifo_def executing_def housekeeping_frame)
  next
    case Restart with Pair show ?thesis by (simp add: step_def fifo_boot)
  next
    case (Disk b) with Pair ff show ?thesis by (simp add: step_def fifo_def executing_def)
  qed
qed

lemma fifo_run: "single_flight s \<Longrightarrow> fifo s \<Longrightarrow> fifo (run cfg evs s)"
  unfolding run_def
  by (induction evs arbitrary: s) (simp_all add: fifo_step single_flight_step)

lemma fifo_first_start: "fifo (first_start t)"
  using fifo_boot[of t installed]
  by (simp add: first_start_def fresh_process_def installed_def)

lemma post_appends:
  assumes "status (snd (post_cf_clearance_scraper cfg t req s)) = 200"
  shows "requestQueue (fst (post_cf_clearance_scraper cfg t req s)) =
           requestQueue s @ [\<lparr> data = body req, jobId = show_nat t @ ''-'' @ rnd req, enqueuedAt = t \<rparr>]"
  using assms
  by (simp add: post_cf_clearance_scraper_def Let_def processQueue_def split: if_splits option.splits)

lemma poll_pops_head:
  assumes "k < length (workers s)" "workers s ! k = Polling" "canProcessNow sample" "requestQueue s = j # rest"
  shows "requestQueue (processQueue_poll t k sample s) = rest
       \<and> workers (processQueue_poll t k sample s) ! k = Running j"
  using assms by (simp add: processQueue_poll_def Let_def)

lemma two_queued_eval:
  "requestQueue two_queued =
     [\<lparr> data = source_request, jobId = ''1001-ab'', enqueuedAt = 1001 \<rparr>,
      \<lparr> data = source_request, jobId = ''1002-cd'', enqueuedAt = 1002 \<rparr>]"
  "workers two_queued = [Polling]"
  by (simp_all add: two_queued_def model_defs open_config_def source_post_def second_post_def Let_def
        show_nat.simps digit_char_def)

lemma idle_admitted: "canProcessNow (idle k)"
  by (simp add: canProcessNow_def getCpuStats_def idle_def vCPU_def cpuThreshold_def)

section \<open>Bookkeeping of job ids\<close>

lemma durable_upd [simp]:
  "durable (s \<lparr> requestQueue := q \<rparr>) = durable s"
  "durable (s \<lparr> processingQueue := b \<rparr>) = durable s"
  "durable (s \<lparr> resultsStore := r \<rparr>) = durable s"
  "durable (s \<lparr> workers := w \<rparr>) = durable s"
  "durable (s \<lparr> console := c \<rparr>) = durable s"
  "durable (s \<lparr> issued := i \<rparr>) = durable s"
  "durable (s \<lparr> arrivals := a \<rparr>) = durable s"
  "durable (s \<lparr> started := st \<rparr>) = durable s"
  "durable (s \<lparr> submitted := su \<rparr>) = durable s"
  "durable (s \<lparr> begun := bg \<rparr>) = durable s"
  "durable (s \<lparr> trace := tr \<rparr>) = durable s"
  "durable (s \<lparr> writable := b' \<rparr>) = durable s"
  by (simp_all add: durable_def split: dbfile.splits)

lemma is_parsed_upd [simp]:
  "is_parsed (s \<lparr> requestQueue := q \<rparr>) = is_parsed s"
  "is_parsed (s \<lparr> processingQueue := b \<rparr>) = is_parsed s"
  "is_parsed (s \<lparr> resultsStore := r \<rparr>) = is_parsed s"
  "is_parsed (s \<lparr> workers := w \<rparr>) = is_parsed s"
  "is_parsed (s \<lparr> console := c \<rparr>) = is_parsed s"
  "is_parsed (s \<lparr> issued := i \<rparr>) = is_parsed s"
  "is_parsed (s \<lparr> arrivals := a \<rparr>) = is_parsed s"
  "is_parsed (s \<lparr> started := st \<rparr>) = is_parsed s"
  "is_parsed (s \<lparr> submitted := su \<rparr>) = is_parsed s"
  "is_parsed (s \<lparr> begun := bg \<rparr>) = is_parsed s"
  "is_parsed (s \<lparr> trace := tr \<rparr>) = is_parsed s"
  "is_parsed (s \<lparr> writable := b' \<rparr>) = is_parsed s"
  by (simp_all add: is_parsed_def)

lemma is_parsed_queueWriteDb [simp]: "is_parsed s \<Longrightarrow> is_parsed (queueWriteDb t m s)"
  by (cases "writable s")
     (auto simp: is_parsed_def queueWriteDb_Parsed queueWriteDb_refused split: dbfile.splits)

lemma durable_queueWriteDb:
  "is_parsed s \<Longrightarrow> writable s \<Longrightarrow>
   queue (durable (queueWriteDb t m s)) = queue (updateFn m (durable s))
   \<and> results (durable (queueWriteDb t m s)) = results (updateFn m (durable s))"
  by (auto simp: is_parsed_def durable_def queueWriteDb_Parsed heal_def split: dbfile.splits)

lemma durable_queueWriteDb_refused:
  "\<not> writable s \<Longrightarrow> durable (queueWriteDb t m s) = durable s"
  by (simp add: queueWriteDb_refused)

lemma readDb_parsed: "is_parsed s \<Longrightarrow> readDb t s = (s, durable s, False)"
  by (auto simp: is_parsed_def durable_def readDb_def split: dbfile.splits)

lemma removed_ids_append [simp]: "removed_ids (xs @ ys) = removed_ids xs @ removed_ids ys"
  by (simp add: removed_ids_def)

lemma persisted_ids_append [simp]: "persisted_ids (xs @ ys) = persisted_ids xs @ persisted_ids ys"
  by (simp add: persisted_ids_def)

lemma removed_ids_Cons [simp]:
  "removed_ids [] = []"
  "removed_ids (e # tr) = (case e of RemovalPersisted j \<Rightarrow> [j] | _ \<Rightarrow> []) @ removed_ids tr"
  by (simp_all add: removed_ids_def)

lemma persisted_ids_Cons [simp]:
  "persisted_ids [] = []"
  "persisted_ids (e # tr) = (case e of ResultPersisted j \<Rightarrow> [j] | _ \<Rightarrow> []) @ persisted_ids tr"
  by (simp_all add: persisted_ids_def)

lemma removed_ids_Invoked [simp]: "removed_ids (replicate n (Invoked j)) = []"
  by (induction n) simp_all

lemma persisted_ids_Invoked [simp]: "persisted_ids (replicate n (Invoked j)) = []"
  by (induction n) simp_all

lemma ids_simps [simp]: "ids [] = []" "ids (j # q) = jobId j # ids q" "ids (q @ q') = ids q @ ids q'"
  by (simp_all add: ids_def)

lemma keys_update: "keys (AList.update k v al) = insert k (keys al)"
  by (induction al) (auto simp: keys_def)

lemma keys_delete: "keys (AList.delete k al) = keys al - {k}"
  by (induction al) (auto simp: keys_def)

lemma keys_map_of: "k \<in> keys al \<longleftrightarrow> map_of al k \<noteq> None"
  by (induction al) (auto simp: keys_def)

lemma distinct_keys_update: "distinct (map fst al) \<Longrightarrow> distinct (map fst (AList.update k v al))"
  by (simp add: AList.distinct_update)

lemma distinct_keys_delete: "distinct (map fst al) \<Longrightarrow> distinct (map fst (AList.delete k al))"
  by (simp add: AList.distinct_delete)

text \<open>The housekeeping loops only delete.\<close>

lemma drop_old_keeps:
  "keys (foldl (\<lambda>acc (jid, res). if P res then AList.delete jid acc else acc) acc xs) \<subseteq> keys acc
   \<and> (distinct (map fst acc) \<longrightarrow>
        distinct (map fst (foldl (\<lambda>acc (jid, res). if P res then AList.delete jid acc else acc) acc xs)))"
proof (induction xs arbitrary: acc)
  case Nil
  then show ?case by simp
next
  case (Cons x xs)
  obtain jid res where x: "x = (jid, res)" by (cases x)
  show ?case
    using Cons[of "if P res then AList.delete jid acc else acc"]
    by (auto simp: x keys_delete distinct_keys_delete)
qed

lemma sweep_mem_keeps:
  "keys (fst (foldl (\<lambda>(store, changed) (jid, result).
                    if P result then (AList.delete jid store, True) else (store, changed)) (acc, c) xs)) \<subseteq> keys acc
   \<and> (distinct (map fst acc) \<longrightarrow>
        distinct (map fst (fst (foldl (\<lambda>(store, changed) (jid, result).
                    if P result then (AList.delete jid store, True) else (store, changed)) (acc, c) xs))))"
proof (induction xs arbitrary: acc c)
  case Nil
  then show ?case by simp
next
  case (Cons x xs)
  obtain jid res where x: "x = (jid, res)" by (cases x)
  show ?case
    using Cons[of "if P res then AList.delete jid acc else acc" "if P res then True else c"]
    by (auto simp: x keys_delete distinct_keys_delete)
qed

lemma executing_upd [simp]:
  "executing (s \<lparr> requestQueue := q \<rparr>) = executing s"
  "executing (s \<lparr> processingQueue := b \<rparr>) = executing s"
  "executing (s \<lparr> resultsStore := r \<rparr>) = executing s"
  "executing (s \<lparr> console := c \<rparr>) = executing s"
  "executing (s \<lparr> issued := i \<rparr>) = executing s"
  "executing (s \<lparr> arrivals := a \<rparr>) = executing s"
  "executing (s \<lparr> started := st \<rparr>) = executing s"
  "executing (s \<lparr> submitted := su \<rparr>) = executing s"
  "executing (s \<lparr> begun := bg \<rparr>) = executing s"
  "executing (s \<lparr> trace := tr \<rparr>) = executing s"
  "executing (s \<lparr> writable := b' \<rparr>) = executing s"
  "executing (queueWriteDb t m s) = executing s"
  by (simp_all add: executing_def)

lemma executing_processQueue [simp]: "executing (processQueue s) = executing s"
  by (simp add: executing_def processQueue_def)

lemma filter_absent: "jid \<notin> set (ids q) \<Longrightarrow> filter (\<lambda>x. jobId x \<noteq> jid) q = q"
  by (induction q) auto

lemma obs_push:
  assumes "tidy_obs True rq rq mem disk ex removed persisted iss" "jobId e \<notin> set iss"
  shows "tidy_obs True (rq @ [e]) (rq @ [e]) mem disk ex removed persisted (iss @ [jobId e])"
  using assms unfolding tidy_obs_def by (simp add: disjoint_iff) blast

lemma obs_take:
  assumes "tidy_obs True rq rq mem disk ex removed persisted iss" "jid \<in> keys mem \<union> keys disk"
  shows "tidy_obs True (filter (\<lambda>x. jobId x \<noteq> jid) rq) rq (AList.delete jid mem) (AList.delete jid disk)
           ex removed persisted iss"
proof -
  from assms have "jid \<notin> set (ids rq)" unfolding tidy_obs_def by blast
  then have "filter (\<lambda>x. jobId x \<noteq> jid) rq = rq" by (rule filter_absent)
  then show ?thesis
    using assms(1) unfolding tidy_obs_def
    by (simp add: keys_delete distinct_keys_delete disjoint_iff) blast
qed

lemma obs_pop:
  assumes "tidy_obs True (j # rest) (j # rest) mem disk [] removed persisted iss"
  shows "tidy_obs True (filter (\<lambda>x. jobId x \<noteq> jobId j) (j # rest)) rest mem disk [j]
           (removed @ [jobId j]) persisted iss"
proof -
  from assms have "jobId j \<notin> set (ids rest)" unfolding tidy_obs_def by simp
  then have "filter (\<lambda>x. jobId x \<noteq> jobId j) (j # rest) = rest" by (simp add: filter_absent)
  then show ?thesis
    using assms unfolding tidy_obs_def
    by (simp add: disjoint_iff) blast
qed

lemma obs_store:
  assumes "tidy_obs True rq rq mem disk [j] removed persisted iss"
  shows "tidy_obs True rq rq (AList.update (jobId j) r mem) (AList.update (jobId j) r disk) []
           removed (persisted @ [jobId j]) iss"
  using assms unfolding tidy_obs_def
  by (simp add: keys_update distinct_keys_update disjoint_iff) blast

lemma obs_done:
  assumes "tidy_obs True rq rq mem disk ex removed persisted iss"
  shows "tidy_obs True rq rq mem disk [] removed persisted iss"
  using assms unfolding tidy_obs_def by simp

lemma obs_sweep:
  assumes "tidy_obs True rq rq mem disk ex removed persisted iss"
    "keys mem' \<subseteq> keys mem" "distinct (map fst mem')" "keys disk' \<subseteq> keys disk" "distinct (map fst disk')"
  shows "tidy_obs True rq rq mem' disk' ex removed persisted iss"
  using assms unfolding tidy_obs_def by (simp add: disjoint_iff) blast

lemma obs_restart:
  assumes "tidy_obs True rq rq mem disk ex removed persisted iss"
  shows "tidy_obs True rq rq disk disk [] removed persisted iss"
  using assms unfolding tidy_obs_def by simp

lemma processQueue_obs [simp]:
  "is_parsed (processQueue s) = is_parsed s"
  "durable (processQueue s) = durable s"
  "requestQueue (processQueue s) = requestQueue s"
  "resultsStore (processQueue s) = resultsStore s"
  "trace (processQueue s) = trace s"
  "issued (processQueue s) = issued s"
  "writable (processQueue s) = writable s"
  "submitted (processQueue s) = submitted s"
  "begun (processQueue s) = begun s"
  by (simp_all add: processQueue_def)

lemma leave_obs [simp]:
  "is_parsed (leave k s) = is_parsed s"
  "durable (leave k s) = durable s"
  "requestQueue (leave k s) = requestQueue s"
  "resultsStore (leave k s) = resultsStore s"
  "trace (leave k s) = trace s"
  "issued (leave k s) = issued s"
  "writable (leave k s) = writable s"
  "submitted (leave k s) = submitted s"
  "begun (leave k s) = begun s"
  by (simp_all add: leave_def)

lemma next_turn_obs [simp]:
  "is_parsed (next_turn k s) = is_parsed s"
  "durable (next_turn k s) = durable s"
  "requestQueue (next_turn k s) = requestQueue s"
  "resultsStore (next_turn k s) = resultsStore s"
  "trace (next_turn k s) = trace s"
  "issued (next_turn k s) = issued s"
  "writable (next_turn k s) = writable s"
  "submitted (next_turn k s) = submitted s"
  "begun (next_turn k s) = begun s"
  by (simp_all add: next_turn_def)

lemma tidy_processQueue: "tidy s \<Longrightarrow> tidy (processQueue s)"
  by (simp add: tidy_def)

lemma tidy_post:
  assumes "tidy s" "show_nat t @ ''-'' @ rnd req \<notin> set (issued s)"
  shows "tidy (fst (post_cf_clearance_scraper cfg t req s))"
proof (cases rule: post_cases[of cfg t req s])
  case rejected
  then show ?thesis using assms by simp
next
  case (accepted enqueued)
  have j: "jobId enqueued \<notin> set (issued s)" using assms(2) accepted(1) by simp
  let ?s1 = "s \<lparr> requestQueue := requestQueue s @ [enqueued],
                issued := issued s @ [jobId enqueued],
                arrivals := arrivals s @ [enqueued],
                submitted := submitted s @ [enqueued],
                console := console s @ [LogJobQueued (jobId enqueued) (Suc (length (requestQueue s)))] \<rparr>"
  from assms(1) have t: "tidy_obs True (requestQueue s) (requestQueue s) (resultsStore s) (results (durable s))
       (executing s) (removed_ids (trace s)) (persisted_ids (trace s)) (issued s)"
    and p: "is_parsed ?s1" and w: "writable ?s1" and q: "queue (durable s) = requestQueue s"
    by (simp_all add: tidy_def tidy_obs_def)
  show ?thesis
    unfolding accepted(2) tidy_def
    using obs_push[OF t j] w
    by (simp add: durable_queueWriteDb[OF p w] updateFn_def q resultsStore_queueWriteDb is_parsed_queueWriteDb[OF p])
qed

lemma delete_update_same: "AList.delete k (AList.update k v al) = AList.delete k al"
  by (induction al) auto

lemma get_cases [consumes 1, case_names pending delivered]:
  assumes "is_parsed s"
  obtains "fst (get_cf_clearance_result t jid s) = s"
  | "jid \<in> keys (resultsStore s) \<union> keys (results (durable s))"
    "fst (get_cf_clearance_result t jid s) =
       queueWriteDb t (TakeResult jid) (s \<lparr> resultsStore := AList.delete jid (resultsStore s) \<rparr>)"
proof (cases "held (resultsStore s) jid")
  case True
  then obtain v where v: "map_of (resultsStore s) jid = Some v" "truthy v"
    by (auto simp: held_def split: option.splits)
  then have "jid \<in> keys (resultsStore s)" by (simp add: keys_map_of)
  then show ?thesis
    using True v by (intro that(2)) (simp_all add: get_cf_clearance_result_def Let_def)
next
  case False
  note r = readDb_parsed[OF assms, of t]
  show ?thesis
  proof (cases "held (results (durable s)) jid")
    case True
    then obtain v where v: "map_of (results (durable s)) jid = Some v" "truthy v"
      by (auto simp: held_def split: option.splits)
    then have "jid \<in> keys (results (durable s))" by (simp add: keys_map_of)
    then show ?thesis
      using False v r
      by (intro that(2))
         (simp_all add: get_cf_clearance_result_def Let_def update_conv' delete_update_same)
  next
    case nodisk: False
    have "fst (get_cf_clearance_result t jid s) = s"
      using False nodisk r
      by (auto simp: get_cf_clearance_result_def Let_def held_def split: option.splits)
    then show ?thesis by (rule that(1))
  qed
qed

lemma tidy_get:
  assumes "tidy s"
  shows "tidy (fst (get_cf_clearance_result t jid s))"
proof -
  from assms have p: "is_parsed s" by (simp add: tidy_def tidy_obs_def)
  from p show ?thesis
  proof (cases rule: get_cases[where s=s and t=t and jid=jid])
    case pending
    then show ?thesis using assms by simp
  next
    case delivered
    let ?s1 = "s \<lparr> resultsStore := AList.delete jid (resultsStore s) \<rparr>"
    from assms have t: "tidy_obs True (requestQueue s) (requestQueue s) (resultsStore s) (results (durable s))
         (executing s) (removed_ids (trace s)) (persisted_ids (trace s)) (issued s)"
      and p1: "is_parsed ?s1" and w: "writable ?s1" and q: "queue (durable s) = requestQueue s"
      by (simp_all add: tidy_def tidy_obs_def)
    show ?thesis
      unfolding delivered(2) tidy_def
      using obs_take[OF t delivered(1)] w
      by (simp add: durable_queueWriteDb[OF p1 w] updateFn_def q resultsStore_queueWriteDb is_parsed_queueWriteDb[OF p1])
  qed
qed

lemma executing_sole:
  "workers s = [Polling] \<Longrightarrow> executing s = []"
  "workers s = [Running j] \<Longrightarrow> executing s = [j]"
  "workers s = [] \<Longrightarrow> executing s = []"
  by (simp_all add: executing_def)

lemma tidy_poll:
  assumes "single_flight s" "tidy s"
  shows "tidy (processQueue_poll t k sample s)"
proof -
  from assms(2) have w0: "writable s" by (simp add: tidy_def tidy_obs_def)
  from w0 show ?thesis
  proof (cases rule: poll_cases_w[where t=t and k=k and sample=sample])
  case idle
  then show ?thesis using assms by simp
next
  case broken
  from sole_worker[OF assms(1) broken(1)] broken(2) have ws: "k = 0" "workers s = [Polling]" by simp_all
  have "executing (leave k (s \<lparr> console := console s @ [LogProcessQueueError] \<rparr>)) = []"
    using ws by (simp add: executing_def leave_def)
  then show ?thesis
    unfolding broken(4) tidy_def using assms(2) executing_sole(1)[OF ws(2)]
    by (simp add: tidy_def)
next
  case (popped j rest)
  from sole_worker[OF assms(1) popped(1)] popped(2) have ws: "k = 0" "workers s = [Polling]" by simp_all
  let ?s1 = "s \<lparr> requestQueue := rest, trace := trace s @ [Popped (jobId j)] \<rparr>"
  from assms(2) popped(3) executing_sole(1)[OF ws(2)]
  have t: "tidy_obs True (j # rest) (j # rest) (resultsStore s) (results (durable s))
       [] (removed_ids (trace s)) (persisted_ids (trace s)) (issued s)"
    and p: "is_parsed ?s1" and w: "writable ?s1" and q: "queue (durable s) = j # rest"
    by (simp_all add: tidy_def tidy_obs_def)
  have e: "executing ((queueWriteDb t (RemoveJob (jobId j)) ?s1)
         \<lparr> console := console s @ [LogProcessJob (jobId j) (length rest)],
           workers := (workers s) [k := Running j],
           trace := trace s @ [Popped (jobId j), RemovalPersisted (jobId j)] \<rparr>) = [j]"
    using ws by (simp add: executing_def)
  show ?thesis
    unfolding popped(4) tidy_def e
    using obs_pop[OF t] w
    by (simp add: durable_queueWriteDb[OF p w] updateFn_def q resultsStore_queueWriteDb is_parsed_queueWriteDb[OF p])
  qed
qed

lemma tidy_run_step:
  assumes "single_flight s" "tidy s"
  shows "tidy (processQueue_run t k eps samples s)"
proof -
  from assms(2) have w0: "writable s" by (simp add: tidy_def tidy_obs_def)
  from w0 show ?thesis
  proof (cases rule: run_cases_w[where t=t and k=k and eps=eps and samples=samples])
  case idle
  then show ?thesis using assms by simp
next
  case (threw j rep)
  from sole_worker[OF assms(1) threw(1)] threw(2) have ws: "k = 0" "workers s = [Running j]" by simp_all
  have e: "executing (leave k (s \<lparr> started := started s @ [j],
                      begun := begun s @ [j],
                      trace := trace s @ replicate (invocations rep) (Invoked (jobId j)),
                      console := console s @ lines rep @ [LogProcessQueueError] \<rparr>)) = []"
    using ws by (simp add: executing_def leave_def)
  from assms(2) have "tidy_obs True (requestQueue s) (requestQueue s) (resultsStore s) (results (durable s))
       (executing s) (removed_ids (trace s)) (persisted_ids (trace s)) (issued s)"
    and q: "queue (durable s) = requestQueue s" "is_parsed s"
    by (simp_all add: tidy_def tidy_obs_def)
  from obs_done[OF this(1)] q w0 show ?thesis
    unfolding threw(4) tidy_def e by simp
next
  case (stored j rep result)
  from sole_worker[OF assms(1) stored(1)] stored(2) have ws: "k = 0" "workers s = [Running j]" by simp_all
  let ?s1 = "s \<lparr> console := console s @ lines rep,
                    started := started s @ [j],
                    begun := begun s @ [j],
                    resultsStore := AList.update (jobId j) result (resultsStore s) \<rparr>"
  let ?s4 = "(queueWriteDb t (PutResult (jobId j) result) ?s1)
            \<lparr> trace := trace s @ replicate (invocations rep) (Invoked (jobId j))
                        @ [OutcomeComputed (jobId j), ResultCached (jobId j), ResultPersisted (jobId j)] \<rparr>"
  from assms(2) executing_sole(2)[OF ws(2)]
  have t: "tidy_obs True (requestQueue s) (requestQueue s) (resultsStore s) (results (durable s))
       [j] (removed_ids (trace s)) (persisted_ids (trace s)) (issued s)"
    and p: "is_parsed ?s1" and w: "writable ?s1" and q: "queue (durable s) = requestQueue s"
    by (simp_all add: tidy_def tidy_obs_def)
  have e: "executing (next_turn k ?s4) = []"
    using ws by (simp add: executing_def next_turn_def leave_def)
  show ?thesis
    unfolding stored(5) tidy_def e
    using obs_store[OF t, of result] w
    by (simp add: durable_queueWriteDb[OF p w] updateFn_def q resultsStore_queueWriteDb is_parsed_queueWriteDb[OF p])
  qed
qed

lemma housekeeping_cases [consumes 1, case_names kept dropped]:
  assumes "is_parsed s"
  obtains "housekeeping cfg now s = s"
  | mem' where "keys mem' \<subseteq> keys (resultsStore s)"
      "distinct (map fst (resultsStore s)) \<longrightarrow> distinct (map fst mem')"
      "housekeeping cfg now s =
         queueWriteDb now (DropOld (ToNumber cfg) now (TTL_MS cfg)) (s \<lparr> resultsStore := mem' \<rparr>)"
proof -
  let ?f = "\<lambda>(store, changed) (jid, result).
                    if too_old (ToNumber cfg) now (TTL_MS cfg) (anchor_mem result)
                    then (AList.delete jid store, True) else (store, changed)"
  obtain mem' changed where f: "foldl ?f (resultsStore s, False) (resultsStore s) = (mem', changed)"
    by (cases "foldl ?f (resultsStore s, False) (resultsStore s)") auto
  have unchanged: "\<not> snd (foldl ?f (acc, False) xs) \<Longrightarrow> fst (foldl ?f (acc, False) xs) = acc" for acc xs
  proof (induction xs arbitrary: acc)
    case Nil then show ?case by simp
  next
    case (Cons x xs)
    obtain jid res where x: "x = (jid, res)" by (cases x)
    have stays: "snd (foldl ?f (a, True) ys)" for a ys
      by (induction ys arbitrary: a) (auto split: prod.splits)
    show ?case
    proof (cases "too_old (ToNumber cfg) now (TTL_MS cfg) (anchor_mem res)")
      case True
      with Cons(2) stays[of "AList.delete jid acc" xs] show ?thesis by (simp add: x)
    next
      case False
      with Cons show ?thesis by (simp add: x)
    qed
  qed
  show ?thesis
  proof (cases changed)
    case False
    with unchanged[of "resultsStore s" "resultsStore s"] f have "mem' = resultsStore s" by simp
    with f False have "housekeeping cfg now s = s" by (simp add: housekeeping_def Let_def)
    then show ?thesis by (rule that(1))
  next
    case True
    from sweep_mem_keeps[of "\<lambda>r. too_old (ToNumber cfg) now (TTL_MS cfg) (anchor_mem r)" "resultsStore s" False "resultsStore s"] f
    have "keys mem' \<subseteq> keys (resultsStore s)"
      "distinct (map fst (resultsStore s)) \<longrightarrow> distinct (map fst mem')"
      by simp_all
    moreover from f True have "housekeeping cfg now s =
         queueWriteDb now (DropOld (ToNumber cfg) now (TTL_MS cfg)) (s \<lparr> resultsStore := mem' \<rparr>)"
      by (simp add: housekeeping_def Let_def)
    ultimately show ?thesis by (rule that(2))
  qed
qed

lemma tidy_housekeeping:
  assumes "tidy s"
  shows "tidy (housekeeping cfg now s)"
proof -
  from assms have p: "is_parsed s" by (simp add: tidy_def tidy_obs_def)
  from p show ?thesis
  proof (cases rule: housekeeping_cases[where s=s and cfg=cfg and now=now])
    case kept
    then show ?thesis using assms by simp
  next
    case (dropped mem')
    let ?s1 = "s \<lparr> resultsStore := mem' \<rparr>"
    let ?disk' = "foldl (\<lambda>acc (jid, res).
                         if too_old (ToNumber cfg) now (TTL_MS cfg) (anchor_db res) then AList.delete jid acc else acc)
                      (results (durable s)) (results (durable s))"
    from assms have t: "tidy_obs True (requestQueue s) (requestQueue s) (resultsStore s) (results (durable s))
         (executing s) (removed_ids (trace s)) (persisted_ids (trace s)) (issued s)"
      and p1: "is_parsed ?s1" and w: "writable ?s1" and q: "queue (durable s) = requestQueue s"
      by (simp_all add: tidy_def tidy_obs_def)
    from t have d: "distinct (map fst (resultsStore s))" "distinct (map fst (results (durable s)))"
      by (simp_all add: tidy_obs_def)
    from drop_old_keeps[of "\<lambda>r. too_old (ToNumber cfg) now (TTL_MS cfg) (anchor_db r)" "results (durable s)" "results (durable s)"] d
    have k: "keys ?disk' \<subseteq> keys (results (durable s))" "distinct (map fst ?disk')" by simp_all
    show ?thesis
      unfolding dropped(3) tidy_def
      using obs_sweep[OF t dropped(1) _ k] dropped(2) d w
      by (simp add: durable_queueWriteDb[OF p1 w] updateFn_def q resultsStore_queueWriteDb is_parsed_queueWriteDb[OF p1])
  qed
qed

lemma fresh_process_obs:
  "is_parsed (fresh_process s) = is_parsed s"
  "is_parsed s \<Longrightarrow> durable (fresh_process s) = durable s"
  "trace (fresh_process s) = trace s"
  "issued (fresh_process s) = issued s"
  "workers (fresh_process s) = []"
  "writable (fresh_process s) = writable s"
  "submitted (fresh_process s) = submitted s"
  "begun (fresh_process s) = begun s"
  by (auto simp: fresh_process_def is_parsed_def durable_def split: dbfile.splits)

lemma ensureDb_parsed: "is_parsed s \<Longrightarrow> ensureDb t s = s"
  by (auto simp: ensureDb_def is_parsed_def split: dbfile.splits)

lemma tidy_boot:
  assumes "tidy s"
  shows "tidy (boot t (fresh_process s))"
proof -
  from assms have p: "is_parsed (fresh_process s)" and p0: "is_parsed s"
    by (simp_all add: tidy_def tidy_obs_def fresh_process_obs)
  note r = readDb_parsed[OF p, of t] ensureDb_parsed[OF p, of t]
  from assms have t: "tidy_obs True (requestQueue s) (requestQueue s) (resultsStore s) (results (durable s))
         (executing s) (removed_ids (trace s)) (persisted_ids (trace s)) (issued s)"
    and q: "queue (durable s) = requestQueue s" and w: "writable s"
    by (simp_all add: tidy_def tidy_obs_def)
  note o = obs_restart[OF t]
  show ?thesis
  proof (cases rule: boot_cases[where t=t and s="fresh_process s"])
    case (empty d)
    have "executing ((fst (readDb t (ensureDb t (fresh_process s))))
                    \<lparr> requestQueue := [], resultsStore := results d, arrivals := [] \<rparr>) = []"
      by (simp add: r executing_def fresh_process_obs)
    then show ?thesis
      unfolding empty(3) tidy_def
      using o empty(1,2) q p0 w by (simp add: r fresh_process_obs)
  next
    case (loaded d)
    have "executing ((fst (readDb t (ensureDb t (fresh_process s))))
                    \<lparr> requestQueue := queue d, resultsStore := results d, arrivals := queue d,
                      console := console (fresh_process s) @ [LogLoaded (length (queue d))] \<rparr>) = []"
      by (simp add: r executing_def fresh_process_obs)
    then show ?thesis
      unfolding loaded(3) tidy_def
      using o loaded(1) q p0 w by (simp add: r fresh_process_obs)
  qed
qed

lemma tidy_first_start: "tidy (first_start t)"
  by (simp add: first_start_def installed_def boot_def ensureDb_def readDb_def writeJsonAtomic_def
        default_stamped_def heal_def Let_def tidy_def tidy_obs_def is_parsed_def durable_def
        executing_def keys_def)

lemma tidy_step:
  assumes "single_flight s" "tidy s"
    "case snd te of Submit req \<Rightarrow> show_nat (fst te) @ ''-'' @ rnd req \<notin> set (issued s)
                  | Disk b \<Rightarrow> b | _ \<Rightarrow> True"
  shows "tidy (step cfg te s)"
proof (cases te)
  case (Pair t e)
  show ?thesis
  proof (cases e)
    case (Submit req) with Pair assms show ?thesis by (simp add: step_def tidy_post)
  next
    case (Fetch jid) with Pair assms show ?thesis by (simp add: step_def tidy_get)
  next
    case (Poll k sample) with Pair assms show ?thesis by (simp add: step_def tidy_poll)
  next
    case (Exec k eps samples) with Pair assms show ?thesis by (simp add: step_def tidy_run_step)
  next
    case Sweep with Pair assms show ?thesis by (simp add: step_def tidy_housekeeping)
  next
    case Restart with Pair assms show ?thesis by (simp add: step_def tidy_boot)
  next
    case (Disk b) with Pair assms show ?thesis by (simp add: step_def tidy_def tidy_obs_def)
  qed
qed

lemma tidy_run:
  "single_flight s \<Longrightarrow> tidy s \<Longrightarrow> writes_land evs \<Longrightarrow> fresh_ids cfg evs s \<Longrightarrow> tidy (run cfg evs s)"
proof (induction evs arbitrary: s)
  case Nil
  then show ?case by (simp add: run_def)
next
  case (Cons te evs)
  obtain t e where te: "te = (t, e)" by (cases te)
  from Cons(5) have f: "case e of Submit req \<Rightarrow> show_nat t @ ''-'' @ rnd req \<notin> set (issued s) | _ \<Rightarrow> True"
    and rest: "fresh_ids cfg evs (step cfg (t, e) s)"
    by (simp_all add: te)
  from Cons(4) have l: "case e of Disk b \<Rightarrow> b | _ \<Rightarrow> True" and lrest: "writes_land evs"
    by (simp_all add: te)
  have "tidy (step cfg (t, e) s)" using Cons(2,3) f l by (intro tidy_step) (simp_all split: event.splits)
  moreover have "single_flight (step cfg (t, e) s)" using Cons(2) by (rule single_flight_step)
  ultimately have "tidy (run cfg evs (step cfg (t, e) s))" using rest lrest by (intro Cons(1))
  then show ?case by (simp add: run_def te)
qed

text \<open>The ids issued along a run: each accepted submission adds the id it generates.\<close>

lemma issued_post:
  "issued (fst (post_cf_clearance_scraper cfg t req s)) =
     issued s @ (if status (snd (post_cf_clearance_scraper cfg t req s)) = 200
                 then [show_nat t @ ''-'' @ rnd req] else [])"
  by (simp add: post_cf_clearance_scraper_def Let_def)

lemma issued_poll: "issued (processQueue_poll t k sample s) = issued s"
  by (cases rule: poll_cases[of t k sample s]) simp_all

lemma issued_run_step: "issued (processQueue_run t k eps samples s) = issued s"
  by (cases rule: run_cases[of t k eps samples s]) simp_all

lemma issued_boot: "issued (boot t (fresh_process s)) = issued s"
  by (cases rule: boot_cases[where t=t and s="fresh_process s"]) (simp_all add: fresh_process_def)

lemma issued_step:
  "issued (step cfg (t, e) s) =
     issued s @ (case e of
                   Submit req \<Rightarrow> if status (snd (post_cf_clearance_scraper cfg t req s)) = 200
                                 then [show_nat t @ ''-'' @ rnd req] else []
                 | _ \<Rightarrow> [])"
  by (cases e) (simp_all add: step_def issued_post get_frame housekeeping_frame issued_poll issued_run_step issued_boot)

lemma open_config_accepts:
  "status (snd (post_cf_clearance_scraper open_config t req s)) = 200"
  by (simp add: post_cf_clearance_scraper_def open_config_def Let_def authToken_def)

lemma issued_first_start: "issued (first_start t) = []"
  using issued_boot[of t installed] by (simp add: first_start_def fresh_process_def installed_def)

section \<open>The example runs, step by step\<close>

text \<open>Giving up on a \<open>source\<close> job whose attempts all time out, with \<open>n\<close> jobs waiting.\<close>

lemma give_up_any:
  "returned (retry_default always_timeout idle n source_request) = Inr (gave_up n)
   \<and> invocations (retry_default always_timeout idle n source_request) = 5"
proof -
  have "\<forall>k. 0 \<le> k \<and> k < 5 \<longrightarrow> (\<exists>r. processRequest (always_timeout k) source_request = Inr r \<and> jget ''code'' r = JNum 500)"
    by (simp add: always_timeout_source jget_def)
  from retry_from_all_fail[OF this, of idle n 2000]
  show ?thesis by (simp add: retry_default_def retryUntilSuccessOrGiveUp_def show_nat_5 gave_up_def)
qed

lemma replicate_5: "replicate 5 x = [x, x, x, x, x]"
  by (simp add: numeral_eq_Suc)

lemma example_fields:
  "reqValidate open_config d = JBool True"
  "authToken open_config = None"
  "env open_config ''SKIP_LAUNCH'' = Some ''true''"
  "body source_post = source_request" "rnd source_post = ''ab''"
  "body second_post = source_request" "rnd second_post = ''cd''"
  "body third_post = source_request" "rnd third_post = ''ef''"
  "data (source_job jid t) = source_request" "jobId (source_job jid t) = jid"
  "\<lparr> data = source_request, jobId = jid, enqueuedAt = t \<rparr> = source_job jid t"
  by (simp_all add: open_config_def authToken_def source_post_def second_post_def third_post_def
        source_job_def)

lemma source_job_inject: "(source_job a t = source_job b u) = (a = b \<and> t = u)"
  by (auto simp: source_job_def)

lemma run_last:
  "run cfg [e1] s = step cfg e1 s"
  "run cfg [e1, e2] s = step cfg e2 (run cfg [e1] s)"
  "run cfg [e1, e2, e3] s = step cfg e3 (run cfg [e1, e2] s)"
  "run cfg [e1, e2, e3, e4] s = step cfg e4 (run cfg [e1, e2, e3] s)"
  "run cfg [e1, e2, e3, e4, e5] s = step cfg e5 (run cfg [e1, e2, e3, e4] s)"
  "run cfg [e1, e2, e3, e4, e5, e6] s = step cfg e6 (run cfg [e1, e2, e3, e4, e5] s)"
  "run cfg [e1, e2, e3, e4, e5, e6, e7] s = step cfg e7 (run cfg [e1, e2, e3, e4, e5, e6] s)"
  "run cfg [e1, e2, e3, e4, e5, e6, e7, e8] s = step cfg e8 (run cfg [e1, e2, e3, e4, e5, e6, e7] s)"
  "run cfg [e1, e2, e3, e4, e5, e6, e7, e8, e9] s =
     step cfg e9 (run cfg [e1, e2, e3, e4, e5, e6, e7, e8] s)"
  "run cfg [e1, e2, e3, e4, e5, e6, e7, e8, e9, e10] s =
     step cfg e10 (run cfg [e1, e2, e3, e4, e5, e6, e7, e8, e9] s)"
  "run cfg [e1, e2, e3, e4, e5, e6, e7, e8, e9, e10, e11] s =
     step cfg e11 (run cfg [e1, e2, e3, e4, e5, e6, e7, e8, e9, e10] s)"
  by (simp_all add: run_def)

lemma first_start_eval:
  "requestQueue (first_start 1000) = []"
  "processingQueue (first_start 1000) = False"
  "workers (first_start 1000) = []"
  "resultsStore (first_start 1000) = []"
  "dbfile (first_start 1000) =
     Parsed \<lparr> p_queue = Some [], p_results = Some [],
              p_meta = Some \<lparr> version = 1, lastWriteAt = Some 1000 \<rparr> \<rparr>"
  "writable (first_start 1000)"
  "trace (first_start 1000) = []"
  "begun (first_start 1000) = []"
  "submitted (first_start 1000) = []"
  by (simp_all add: model_defs Let_def)

lemmas step_eval =
  step_def readDb_def writeJsonAtomic_def heal_def queueWriteDb_def updateFn_def
  processQueue_def processQueue_poll_def processQueue_run_def leave_def next_turn_def
  post_cf_clearance_scraper_def fresh_process_def boot_def ensureDb_def
  idle_admitted example_fields Let_def show_nat.simps digit_char_def give_up_any replicate_5
  numeral_2_eq_2

text \<open>The run \<open>reprocessed\<close>, event by event: what the queue, the flag, the loops, the
  results, the file, the file system and the histories are after each of its events. The
  disk is full from the second event to the fourth.\<close>

lemma lost_write_1:
  fixes S defines "S \<equiv> run open_config [(1001, Submit source_post)] (first_start 1000)"
  shows "requestQueue S = [source_job ''1001-ab'' 1001]"
    and "processingQueue S = True"
    and "workers S = [Polling]"
    and "resultsStore S = []"
    and "dbfile S =
     Parsed \<lparr> p_queue = Some [source_job ''1001-ab'' 1001],
              p_results = Some [],
              p_meta = Some \<lparr> version = 1, lastWriteAt = Some 1001 \<rparr> \<rparr>"
    and "writable S = True"
    and "trace S = []"
    and "begun S = []"
    and "submitted S = [source_job ''1001-ab'' 1001]"
  unfolding S_def by (subst run_last, simp add: step_eval first_start_eval)+

lemma lost_write_2:
  fixes S defines "S \<equiv> run open_config [(1001, Submit source_post), (1002, Disk False)] (first_start 1000)"
  shows "requestQueue S = [source_job ''1001-ab'' 1001]"
    and "processingQueue S = True"
    and "workers S = [Polling]"
    and "resultsStore S = []"
    and "dbfile S =
     Parsed \<lparr> p_queue = Some [source_job ''1001-ab'' 1001],
              p_results = Some [],
              p_meta = Some \<lparr> version = 1, lastWriteAt = Some 1001 \<rparr> \<rparr>"
    and "writable S = False"
    and "trace S = []"
    and "begun S = []"
    and "submitted S = [source_job ''1001-ab'' 1001]"
  unfolding S_def by (subst run_last, simp add: step_eval lost_write_1)+

lemma lost_write_3:
  fixes S defines "S \<equiv> run open_config [(1001, Submit source_post), (1002, Disk False), (1003, Poll 0 (idle 0))] (first_start 1000)"
  shows "requestQueue S = []"
    and "processingQueue S = True"
    and "workers S = [Running (source_job ''1001-ab'' 1001)]"
    and "resultsStore S = []"
    and "dbfile S =
     Parsed \<lparr> p_queue = Some [source_job ''1001-ab'' 1001],
              p_results = Some [],
              p_meta = Some \<lparr> version = 1, lastWriteAt = Some 1001 \<rparr> \<rparr>"
    and "writable S = False"
    and "trace S = [Popped ''1001-ab'']"
    and "begun S = []"
    and "submitted S = [source_job ''1001-ab'' 1001]"
  unfolding S_def by (subst run_last, simp add: step_eval lost_write_2)+

lemma lost_write_4:
  fixes S defines "S \<equiv> run open_config [(1001, Submit source_post), (1002, Disk False), (1003, Poll 0 (idle 0)),
                       (1004, Disk True)] (first_start 1000)"
  shows "requestQueue S = []"
    and "processingQueue S = True"
    and "workers S = [Running (source_job ''1001-ab'' 1001)]"
    and "resultsStore S = []"
    and "dbfile S =
     Parsed \<lparr> p_queue = Some [source_job ''1001-ab'' 1001],
              p_results = Some [],
              p_meta = Some \<lparr> version = 1, lastWriteAt = Some 1001 \<rparr> \<rparr>"
    and "writable S = True"
    and "trace S = [Popped ''1001-ab'']"
    and "begun S = []"
    and "submitted S = [source_job ''1001-ab'' 1001]"
  unfolding S_def by (subst run_last, simp add: step_eval lost_write_3)+

lemma lost_write_5:
  fixes S defines "S \<equiv> run open_config [(1001, Submit source_post), (1002, Disk False), (1003, Poll 0 (idle 0)),
                       (1004, Disk True), (1005, Exec 0 always_timeout idle)] (first_start 1000)"
  shows "requestQueue S = []"
    and "processingQueue S = False"
    and "workers S = []"
    and "resultsStore S = [(''1001-ab'', gave_up 0)]"
    and "dbfile S =
     Parsed \<lparr> p_queue = Some [source_job ''1001-ab'' 1001],
              p_results = Some [(''1001-ab'', gave_up 0)],
              p_meta = Some \<lparr> version = 1, lastWriteAt = Some 1005 \<rparr> \<rparr>"
    and "writable S = True"
    and "trace S =
     [Popped ''1001-ab'', Invoked ''1001-ab'', Invoked ''1001-ab'', Invoked ''1001-ab'',
      Invoked ''1001-ab'', Invoked ''1001-ab'', OutcomeComputed ''1001-ab'',
      ResultCached ''1001-ab'', ResultPersisted ''1001-ab'']"
    and "begun S = [source_job ''1001-ab'' 1001]"
    and "submitted S = [source_job ''1001-ab'' 1001]"
  unfolding S_def by (subst run_last, simp add: step_eval lost_write_4)+

lemma lost_write_6:
  fixes S defines "S \<equiv> run open_config [(1001, Submit source_post), (1002, Disk False), (1003, Poll 0 (idle 0)),
                       (1004, Disk True), (1005, Exec 0 always_timeout idle), (1006, Submit second_post)] (first_start 1000)"
  shows "requestQueue S = [source_job ''1006-cd'' 1006]"
    and "processingQueue S = True"
    and "workers S = [Polling]"
    and "resultsStore S = [(''1001-ab'', gave_up 0)]"
    and "dbfile S =
     Parsed \<lparr> p_queue = Some [source_job ''1001-ab'' 1001, source_job ''1006-cd'' 1006],
              p_results = Some [(''1001-ab'', gave_up 0)],
              p_meta = Some \<lparr> version = 1, lastWriteAt = Some 1006 \<rparr> \<rparr>"
    and "writable S = True"
    and "trace S =
     [Popped ''1001-ab'', Invoked ''1001-ab'', Invoked ''1001-ab'', Invoked ''1001-ab'',
      Invoked ''1001-ab'', Invoked ''1001-ab'', OutcomeComputed ''1001-ab'',
      ResultCached ''1001-ab'', ResultPersisted ''1001-ab'']"
    and "begun S = [source_job ''1001-ab'' 1001]"
    and "submitted S = [source_job ''1001-ab'' 1001, source_job ''1006-cd'' 1006]"
  unfolding S_def by (subst run_last, simp add: step_eval lost_write_5)+

lemma lost_write_7:
  fixes S defines "S \<equiv> run open_config [(1001, Submit source_post), (1002, Disk False), (1003, Poll 0 (idle 0)),
                       (1004, Disk True), (1005, Exec 0 always_timeout idle), (1006, Submit second_post),
                       (1007, Poll 0 (idle 0))] (first_start 1000)"
  shows "requestQueue S = []"
    and "processingQueue S = True"
    and "workers S = [Running (source_job ''1006-cd'' 1006)]"
    and "resultsStore S = [(''1001-ab'', gave_up 0)]"
    and "dbfile S =
     Parsed \<lparr> p_queue = Some [source_job ''1001-ab'' 1001],
              p_results = Some [(''1001-ab'', gave_up 0)],
              p_meta = Some \<lparr> version = 1, lastWriteAt = Some 1007 \<rparr> \<rparr>"
    and "writable S = True"
    and "trace S =
     [Popped ''1001-ab'', Invoked ''1001-ab'', Invoked ''1001-ab'', Invoked ''1001-ab'',
      Invoked ''1001-ab'', Invoked ''1001-ab'', OutcomeComputed ''1001-ab'',
      ResultCached ''1001-ab'', ResultPersisted ''1001-ab'', Popped ''1006-cd'',
      RemovalPersisted ''1006-cd'']"
    and "begun S = [source_job ''1001-ab'' 1001]"
    and "submitted S = [source_job ''1001-ab'' 1001, source_job ''1006-cd'' 1006]"
  unfolding S_def by (subst run_last, simp add: step_eval lost_write_6)+

lemma lost_write_8:
  fixes S defines "S \<equiv> run open_config [(1001, Submit source_post), (1002, Disk False), (1003, Poll 0 (idle 0)),
                       (1004, Disk True), (1005, Exec 0 always_timeout idle), (1006, Submit second_post),
                       (1007, Poll 0 (idle 0)), (1008, Exec 0 always_timeout idle)] (first_start 1000)"
  shows "requestQueue S = []"
    and "processingQueue S = False"
    and "workers S = []"
    and "resultsStore S = [(''1001-ab'', gave_up 0), (''1006-cd'', gave_up 0)]"
    and "dbfile S =
     Parsed \<lparr> p_queue = Some [source_job ''1001-ab'' 1001],
              p_results = Some [(''1001-ab'', gave_up 0), (''1006-cd'', gave_up 0)],
              p_meta = Some \<lparr> version = 1, lastWriteAt = Some 1008 \<rparr> \<rparr>"
    and "writable S = True"
    and "trace S =
     [Popped ''1001-ab'', Invoked ''1001-ab'', Invoked ''1001-ab'', Invoked ''1001-ab'',
      Invoked ''1001-ab'', Invoked ''1001-ab'', OutcomeComputed ''1001-ab'',
      ResultCached ''1001-ab'', ResultPersisted ''1001-ab'', Popped ''1006-cd'',
      RemovalPersisted ''1006-cd'', Invoked ''1006-cd'', Invoked ''1006-cd'',
      Invoked ''1006-cd'', Invoked ''1006-cd'', Invoked ''1006-cd'',
      OutcomeComputed ''1006-cd'', ResultCached ''1006-cd'', ResultPersisted ''1006-cd'']"
    and "begun S = [source_job ''1001-ab'' 1001, source_job ''1006-cd'' 1006]"
    and "submitted S = [source_job ''1001-ab'' 1001, source_job ''1006-cd'' 1006]"
  unfolding S_def by (subst run_last, simp add: step_eval lost_write_7)+

lemma lost_write_9:
  fixes S defines "S \<equiv> run open_config [(1001, Submit source_post), (1002, Disk False), (1003, Poll 0 (idle 0)),
                       (1004, Disk True), (1005, Exec 0 always_timeout idle), (1006, Submit second_post),
                       (1007, Poll 0 (idle 0)), (1008, Exec 0 always_timeout idle), (1009, Restart)] (first_start 1000)"
  shows "requestQueue S = [source_job ''1001-ab'' 1001]"
    and "processingQueue S = True"
    and "workers S = [Polling]"
    and "resultsStore S = [(''1001-ab'', gave_up 0), (''1006-cd'', gave_up 0)]"
    and "dbfile S =
     Parsed \<lparr> p_queue = Some [source_job ''1001-ab'' 1001],
              p_results = Some [(''1001-ab'', gave_up 0), (''1006-cd'', gave_up 0)],
              p_meta = Some \<lparr> version = 1, lastWriteAt = Some 1008 \<rparr> \<rparr>"
    and "writable S = True"
    and "trace S =
     [Popped ''1001-ab'', Invoked ''1001-ab'', Invoked ''1001-ab'', Invoked ''1001-ab'',
      Invoked ''1001-ab'', Invoked ''1001-ab'', OutcomeComputed ''1001-ab'',
      ResultCached ''1001-ab'', ResultPersisted ''1001-ab'', Popped ''1006-cd'',
      RemovalPersisted ''1006-cd'', Invoked ''1006-cd'', Invoked ''1006-cd'',
      Invoked ''1006-cd'', Invoked ''1006-cd'', Invoked ''1006-cd'',
      OutcomeComputed ''1006-cd'', ResultCached ''1006-cd'', ResultPersisted ''1006-cd'']"
    and "begun S = [source_job ''1001-ab'' 1001, source_job ''1006-cd'' 1006]"
    and "submitted S = [source_job ''1001-ab'' 1001, source_job ''1006-cd'' 1006]"
  unfolding S_def by (subst run_last, simp add: step_eval lost_write_8)+

lemma lost_write_10:
  fixes S defines "S \<equiv> run open_config [(1001, Submit source_post), (1002, Disk False), (1003, Poll 0 (idle 0)),
                       (1004, Disk True), (1005, Exec 0 always_timeout idle), (1006, Submit second_post),
                       (1007, Poll 0 (idle 0)), (1008, Exec 0 always_timeout idle), (1009, Restart),
                       (1010, Poll 0 (idle 0))] (first_start 1000)"
  shows "requestQueue S = []"
    and "processingQueue S = True"
    and "workers S = [Running (source_job ''1001-ab'' 1001)]"
    and "resultsStore S = [(''1001-ab'', gave_up 0), (''1006-cd'', gave_up 0)]"
    and "dbfile S =
     Parsed \<lparr> p_queue = Some [],
              p_results = Some [(''1001-ab'', gave_up 0), (''1006-cd'', gave_up 0)],
              p_meta = Some \<lparr> version = 1, lastWriteAt = Some 1010 \<rparr> \<rparr>"
    and "writable S = True"
    and "trace S =
     [Popped ''1001-ab'', Invoked ''1001-ab'', Invoked ''1001-ab'', Invoked ''1001-ab'',
      Invoked ''1001-ab'', Invoked ''1001-ab'', OutcomeComputed ''1001-ab'',
      ResultCached ''1001-ab'', ResultPersisted ''1001-ab'', Popped ''1006-cd'',
      RemovalPersisted ''1006-cd'', Invoked ''1006-cd'', Invoked ''1006-cd'',
      Invoked ''1006-cd'', Invoked ''1006-cd'', Invoked ''1006-cd'',
      OutcomeComputed ''1006-cd'', ResultCached ''1006-cd'', ResultPersisted ''1006-cd'',
      Popped ''1001-ab'', RemovalPersisted ''1001-ab'']"
    and "begun S = [source_job ''1001-ab'' 1001, source_job ''1006-cd'' 1006]"
    and "submitted S = [source_job ''1001-ab'' 1001, source_job ''1006-cd'' 1006]"
  unfolding S_def by (subst run_last, simp add: step_eval lost_write_9)+

lemma lost_write_11:
  fixes S defines "S \<equiv> run open_config [(1001, Submit source_post), (1002, Disk False), (1003, Poll 0 (idle 0)),
                       (1004, Disk True), (1005, Exec 0 always_timeout idle), (1006, Submit second_post),
                       (1007, Poll 0 (idle 0)), (1008, Exec 0 always_timeout idle), (1009, Restart),
                       (1010, Poll 0 (idle 0)), (1011, Exec 0 always_timeout idle)] (first_start 1000)"
  shows "requestQueue S = []"
    and "processingQueue S = False"
    and "workers S = []"
    and "resultsStore S = [(''1001-ab'', gave_up 0), (''1006-cd'', gave_up 0)]"
    and "dbfile S =
     Parsed \<lparr> p_queue = Some [],
              p_results = Some [(''1001-ab'', gave_up 0), (''1006-cd'', gave_up 0)],
              p_meta = Some \<lparr> version = 1, lastWriteAt = Some 1011 \<rparr> \<rparr>"
    and "writable S = True"
    and "trace S =
     [Popped ''1001-ab'', Invoked ''1001-ab'', Invoked ''1001-ab'', Invoked ''1001-ab'',
      Invoked ''1001-ab'', Invoked ''1001-ab'', OutcomeComputed ''1001-ab'',
      ResultCached ''1001-ab'', ResultPersisted ''1001-ab'', Popped ''1006-cd'',
      RemovalPersisted ''1006-cd'', Invoked ''1006-cd'', Invoked ''1006-cd'',
      Invoked ''1006-cd'', Invoked ''1006-cd'', Invoked ''1006-cd'',
      OutcomeComputed ''1006-cd'', ResultCached ''1006-cd'', ResultPersisted ''1006-cd'',
      Popped ''1001-ab'', RemovalPersisted ''1001-ab'', Invoked ''1001-ab'',
      Invoked ''1001-ab'', Invoked ''1001-ab'', Invoked ''1001-ab'', Invoked ''1001-ab'',
      OutcomeComputed ''1001-ab'', ResultCached ''1001-ab'', ResultPersisted ''1001-ab'']"
    and "begun S =
     [source_job ''1001-ab'' 1001, source_job ''1006-cd'' 1006, source_job ''1001-ab'' 1001]"
    and "submitted S = [source_job ''1001-ab'' 1001, source_job ''1006-cd'' 1006]"
  unfolding S_def by (subst run_last, simp add: step_eval lost_write_10)+

text \<open>The run \<open>morning\<close>, from its second event on.\<close>

lemma morning_2:
  fixes S defines "S \<equiv> run open_config [(1001, Submit source_post), (1002, Submit second_post)] (first_start 1000)"
  shows "requestQueue S = [source_job ''1001-ab'' 1001, source_job ''1002-cd'' 1002]"
    and "processingQueue S = True"
    and "workers S = [Polling]"
    and "resultsStore S = []"
    and "dbfile S =
     Parsed \<lparr> p_queue = Some [source_job ''1001-ab'' 1001, source_job ''1002-cd'' 1002],
              p_results = Some [],
              p_meta = Some \<lparr> version = 1, lastWriteAt = Some 1002 \<rparr> \<rparr>"
    and "writable S = True"
    and "trace S = []"
    and "begun S = []"
    and "submitted S = [source_job ''1001-ab'' 1001, source_job ''1002-cd'' 1002]"
  unfolding S_def by (subst run_last, simp add: step_eval lost_write_1)+

lemma morning_3:
  fixes S defines "S \<equiv> run open_config [(1001, Submit source_post), (1002, Submit second_post), (1003, Submit third_post)] (first_start 1000)"
  shows "requestQueue S =
     [source_job ''1001-ab'' 1001, source_job ''1002-cd'' 1002, source_job ''1003-ef'' 1003]"
    and "processingQueue S = True"
    and "workers S = [Polling]"
    and "resultsStore S = []"
    and "dbfile S =
     Parsed \<lparr> p_queue = Some [source_job ''1001-ab'' 1001, source_job ''1002-cd'' 1002, source_job ''1003-ef'' 1003],
              p_results = Some [],
              p_meta = Some \<lparr> version = 1, lastWriteAt = Some 1003 \<rparr> \<rparr>"
    and "writable S = True"
    and "trace S = []"
    and "begun S = []"
    and "submitted S =
     [source_job ''1001-ab'' 1001, source_job ''1002-cd'' 1002, source_job ''1003-ef'' 1003]"
  unfolding S_def by (subst run_last, simp add: step_eval morning_2)+

lemma morning_4:
  fixes S defines "S \<equiv> run open_config [(1001, Submit source_post), (1002, Submit second_post), (1003, Submit third_post),
                       (1004, Poll 0 (idle 0))] (first_start 1000)"
  shows "requestQueue S = [source_job ''1002-cd'' 1002, source_job ''1003-ef'' 1003]"
    and "processingQueue S = True"
    and "workers S = [Running (source_job ''1001-ab'' 1001)]"
    and "resultsStore S = []"
    and "dbfile S =
     Parsed \<lparr> p_queue = Some [source_job ''1002-cd'' 1002, source_job ''1003-ef'' 1003],
              p_results = Some [],
              p_meta = Some \<lparr> version = 1, lastWriteAt = Some 1004 \<rparr> \<rparr>"
    and "writable S = True"
    and "trace S = [Popped ''1001-ab'', RemovalPersisted ''1001-ab'']"
    and "begun S = []"
    and "submitted S =
     [source_job ''1001-ab'' 1001, source_job ''1002-cd'' 1002, source_job ''1003-ef'' 1003]"
  unfolding S_def by (subst run_last, simp add: step_eval morning_3)+

lemma morning_5:
  fixes S defines "S \<equiv> run open_config [(1001, Submit source_post), (1002, Submit second_post), (1003, Submit third_post),
                       (1004, Poll 0 (idle 0)), (1005, Exec 0 always_timeout idle)] (first_start 1000)"
  shows "requestQueue S = [source_job ''1002-cd'' 1002, source_job ''1003-ef'' 1003]"
    and "processingQueue S = True"
    and "workers S = [Polling]"
    and "resultsStore S = [(''1001-ab'', gave_up 2)]"
    and "dbfile S =
     Parsed \<lparr> p_queue = Some [source_job ''1002-cd'' 1002, source_job ''1003-ef'' 1003],
              p_results = Some [(''1001-ab'', gave_up 2)],
              p_meta = Some \<lparr> version = 1, lastWriteAt = Some 1005 \<rparr> \<rparr>"
    and "writable S = True"
    and "trace S =
     [Popped ''1001-ab'', RemovalPersisted ''1001-ab'', Invoked ''1001-ab'',
      Invoked ''1001-ab'', Invoked ''1001-ab'', Invoked ''1001-ab'', Invoked ''1001-ab'',
      OutcomeComputed ''1001-ab'', ResultCached ''1001-ab'', ResultPersisted ''1001-ab'']"
    and "begun S = [source_job ''1001-ab'' 1001]"
    and "submitted S =
     [source_job ''1001-ab'' 1001, source_job ''1002-cd'' 1002, source_job ''1003-ef'' 1003]"
  unfolding S_def by (subst run_last, simp add: step_eval morning_4)+

lemma morning_6:
  fixes S defines "S \<equiv> run open_config [(1001, Submit source_post), (1002, Submit second_post), (1003, Submit third_post),
                       (1004, Poll 0 (idle 0)), (1005, Exec 0 always_timeout idle),
                       (1006, Poll 0 (idle 0))] (first_start 1000)"
  shows "requestQueue S = [source_job ''1003-ef'' 1003]"
    and "processingQueue S = True"
    and "workers S = [Running (source_job ''1002-cd'' 1002)]"
    and "resultsStore S = [(''1001-ab'', gave_up 2)]"
    and "dbfile S =
     Parsed \<lparr> p_queue = Some [source_job ''1003-ef'' 1003],
              p_results = Some [(''1001-ab'', gave_up 2)],
              p_meta = Some \<lparr> version = 1, lastWriteAt = Some 1006 \<rparr> \<rparr>"
    and "writable S = True"
    and "trace S =
     [Popped ''1001-ab'', RemovalPersisted ''1001-ab'', Invoked ''1001-ab'',
      Invoked ''1001-ab'', Invoked ''1001-ab'', Invoked ''1001-ab'', Invoked ''1001-ab'',
      OutcomeComputed ''1001-ab'', ResultCached ''1001-ab'', ResultPersisted ''1001-ab'',
      Popped ''1002-cd'', RemovalPersisted ''1002-cd'']"
    and "begun S = [source_job ''1001-ab'' 1001]"
    and "submitted S =
     [source_job ''1001-ab'' 1001, source_job ''1002-cd'' 1002, source_job ''1003-ef'' 1003]"
  unfolding S_def by (subst run_last, simp add: step_eval morning_5)+

text \<open>The run \<open>same_instant\<close>: its second submission is given the id of the first.\<close>

lemma same_instant_2:
  fixes S defines "S \<equiv> run open_config [(1001, Submit source_post), (1001, Submit source_post)] (first_start 1000)"
  shows "requestQueue S = [source_job ''1001-ab'' 1001, source_job ''1001-ab'' 1001]"
    and "processingQueue S = True"
    and "workers S = [Polling]"
    and "resultsStore S = []"
    and "dbfile S =
     Parsed \<lparr> p_queue = Some [source_job ''1001-ab'' 1001, source_job ''1001-ab'' 1001],
              p_results = Some [],
              p_meta = Some \<lparr> version = 1, lastWriteAt = Some 1001 \<rparr> \<rparr>"
    and "writable S = True"
    and "trace S = []"
    and "begun S = []"
    and "submitted S = [source_job ''1001-ab'' 1001, source_job ''1001-ab'' 1001]"
  unfolding S_def by (subst run_last, simp add: step_eval lost_write_1)+

lemma example_runs:
  "run open_config morning (first_start 1000) =
     run open_config [(1001, Submit source_post), (1002, Submit second_post), (1003, Submit third_post),
                      (1004, Poll 0 (idle 0)), (1005, Exec 0 always_timeout idle), (1006, Poll 0 (idle 0))]
       (first_start 1000)"
  "run open_config removal_refused (first_start 1000) =
     run open_config [(1001, Submit source_post), (1002, Disk False), (1003, Poll 0 (idle 0))] (first_start 1000)"
  "run open_config failed_removal (first_start 1000) =
     run open_config [(1001, Submit source_post), (1002, Disk False), (1003, Poll 0 (idle 0)),
                      (1004, Disk True), (1005, Exec 0 always_timeout idle)] (first_start 1000)"
  "run open_config reprocessed (first_start 1000) =
     run open_config [(1001, Submit source_post), (1002, Disk False), (1003, Poll 0 (idle 0)),
                      (1004, Disk True), (1005, Exec 0 always_timeout idle), (1006, Submit second_post),
                      (1007, Poll 0 (idle 0)), (1008, Exec 0 always_timeout idle), (1009, Restart),
                      (1010, Poll 0 (idle 0)), (1011, Exec 0 always_timeout idle)] (first_start 1000)"
  "run open_config same_instant (first_start 1000) =
     run open_config [(1001, Submit source_post), (1001, Submit source_post)] (first_start 1000)"
  by (simp_all add: morning_def removal_refused_def failed_removal_def reprocessed_def same_instant_def)

lemma morning_lands: "writes_land morning"
  by (simp add: morning_def)

lemma morning_fresh: "fresh_ids open_config morning (first_start 1000)"
  by (simp add: morning_def issued_step open_config_accepts issued_first_start
        source_post_def second_post_def third_post_def show_nat.simps digit_char_def)

section \<open>At most one place for a job id\<close>




section \<open>The order of the worker's effects\<close>

lemma precedes_append:
  "precedes a b (xs @ ys) = (precedes a b xs \<and> (a \<in> set xs \<or> precedes a b ys))"
  by (induction xs) auto

lemma precedes_absent: "b \<notin> set xs \<Longrightarrow> precedes a b xs"
  by (induction xs) auto

lemma count_removed: "count_list tr (RemovalPersisted j) = count_list (removed_ids tr) j"
  by (induction tr) (auto split: obs.splits)

lemma never_after_absent: "a \<notin> set xs \<Longrightarrow> never_after a b xs"
  by (induction xs) auto

lemma never_after_once:
  assumes "a \<noteq> b" "precedes a b tr" "count_list tr a \<le> 1"
  shows "never_after a b tr"
  using assms(2,3)
proof (induction tr)
  case Nil
  then show ?case by simp
next
  case (Cons x xs)
  show ?case
  proof (cases "x = a")
    case True
    with Cons(3) have "count_list xs a = 0" by simp
    then have "a \<notin> set xs" by (simp add: count_list_0_iff)
    then show ?thesis using True assms(1) by (simp add: never_after_absent)
  next
    case False
    with Cons show ?thesis by (auto split: if_splits)
  qed
qed

lemma distinct_count_le: "distinct xs \<Longrightarrow> count_list xs x \<le> 1"
  by (induction xs) (auto simp: count_list_0_iff)

lemma ordered_cong:
  "trace s' = trace s \<Longrightarrow> executing s' = executing s \<Longrightarrow> ordered s' = ordered s"
  by (simp add: ordered_def)

lemma ordered_processQueue: "ordered s \<Longrightarrow> ordered (processQueue s)"
  by (simp add: ordered_def)

lemma ordered_post: "ordered s \<Longrightarrow> ordered (fst (post_cf_clearance_scraper cfg t req s))"
proof (cases rule: post_cases[of cfg t req s])
  case rejected
  assume "ordered s" then show ?thesis using rejected by simp
next
  case (accepted enqueued)
  assume "ordered s"
  then show ?thesis
    unfolding accepted(2) by (intro ordered_processQueue) (simp add: ordered_def)
qed

lemma ordered_poll:
  assumes "single_flight s" "ordered s" "writable s"
  shows "ordered (processQueue_poll t k sample s)"
  using assms(3)
proof (cases rule: poll_cases_w[where t=t and k=k and sample=sample])
  case idle
  then show ?thesis using assms by simp
next
  case broken
  from sole_worker[OF assms(1) broken(1)] broken(2) have ws: "k = 0" "workers s = [Polling]" by simp_all
  have "executing (leave k (s \<lparr> console := console s @ [LogProcessQueueError] \<rparr>)) = []"
    using ws by (simp add: executing_def leave_def)
  then show ?thesis
    unfolding broken(4) using assms(2) by (simp add: ordered_def)
next
  case (popped j rest)
  from sole_worker[OF assms(1) popped(1)] popped(2) have ws: "k = 0" "workers s = [Polling]" by simp_all
  have e: "executing ((queueWriteDb t (RemoveJob (jobId j)) (s \<lparr> requestQueue := rest, trace := trace s @ [Popped (jobId j)] \<rparr>))
         \<lparr> console := console s @ [LogProcessJob (jobId j) (length rest)],
           workers := (workers s) [k := Running j],
           trace := trace s @ [Popped (jobId j), RemovalPersisted (jobId j)] \<rparr>) = [j]"
    using ws by (simp add: executing_def)
  show ?thesis
    unfolding popped(4) ordered_def e using assms(2)
    by (simp add: ordered_def precedes_append)
qed

lemma precedes_replicate: "precedes a b (replicate n c) = (n = 0 \<or> c = a \<or> c \<noteq> b)"
  by (induction n) auto

lemma ordered_run_step:
  assumes "single_flight s" "ordered s" "writable s"
  shows "ordered (processQueue_run t k eps samples s)"
  using assms(3)
proof (cases rule: run_cases_w[where t=t and k=k and eps=eps and samples=samples])
  case idle
  then show ?thesis using assms by simp
next
  case (threw j rep)
  from sole_worker[OF assms(1) threw(1)] threw(2) have ws: "k = 0" "workers s = [Running j]" by simp_all
  have e: "executing (leave k (s \<lparr> started := started s @ [j],
                      begun := begun s @ [j],
                      trace := trace s @ replicate (invocations rep) (Invoked (jobId j)),
                      console := console s @ lines rep @ [LogProcessQueueError] \<rparr>)) = []"
    using ws by (simp add: executing_def leave_def)
  from assms(2) executing_sole(2)[OF ws(2)] have r: "RemovalPersisted (jobId j) \<in> set (trace s)"
    by (simp add: ordered_def)
  show ?thesis
    unfolding threw(4) ordered_def e using assms(2) r
    by (auto simp: ordered_def precedes_append precedes_replicate)
next
  case (stored j rep result)
  from sole_worker[OF assms(1) stored(1)] stored(2) have ws: "k = 0" "workers s = [Running j]" by simp_all
  let ?s4 = "(queueWriteDb t (PutResult (jobId j) result)
               (s \<lparr> console := console s @ lines rep,
                    started := started s @ [j],
                    begun := begun s @ [j],
                    resultsStore := AList.update (jobId j) result (resultsStore s) \<rparr>))
            \<lparr> trace := trace s @ replicate (invocations rep) (Invoked (jobId j))
                        @ [OutcomeComputed (jobId j), ResultCached (jobId j), ResultPersisted (jobId j)] \<rparr>"
  have e: "executing (next_turn k ?s4) = []"
    using ws by (simp add: executing_def next_turn_def leave_def)
  from assms(2) executing_sole(2)[OF ws(2)] have r: "RemovalPersisted (jobId j) \<in> set (trace s)"
    by (simp add: ordered_def)
  show ?thesis
    unfolding stored(5) ordered_def e using assms(2) r
    by (auto simp: ordered_def precedes_append precedes_replicate)
qed

lemma ordered_boot: "ordered s \<Longrightarrow> ordered (boot t (fresh_process s))"
proof (cases rule: boot_cases[where t=t and s="fresh_process s"])
  case (empty d)
  assume "ordered s"
  then show ?thesis
    unfolding empty(3) by (simp add: ordered_def executing_def fresh_process_def)
next
  case (loaded d)
  assume "ordered s"
  then show ?thesis
    unfolding loaded(3)
    by (intro ordered_processQueue) (simp add: ordered_def executing_def fresh_process_def)
qed

lemma ordered_step:
  "single_flight s \<Longrightarrow> ordered s \<Longrightarrow> writable s \<Longrightarrow> ordered (step cfg te s)"
proof (cases te)
  case (Pair t e)
  assume sf: "single_flight s" and o: "ordered s" and w: "writable s"
  show ?thesis
  proof (cases e)
    case (Submit req) with Pair o show ?thesis by (simp add: step_def ordered_post)
  next
    case (Fetch jid)
    with Pair o show ?thesis by (simp add: step_def ordered_def executing_def get_frame)
  next
    case (Poll k sample) with Pair sf o w show ?thesis by (simp add: step_def ordered_poll)
  next
    case (Exec k eps samples) with Pair sf o w show ?thesis by (simp add: step_def ordered_run_step)
  next
    case Sweep
    with Pair o show ?thesis by (simp add: step_def ordered_def executing_def housekeeping_frame)
  next
    case Restart with Pair o show ?thesis by (simp add: step_def ordered_boot)
  next
    case (Disk b) with Pair o show ?thesis by (simp add: step_def ordered_def)
  qed
qed

lemma writable_step:
  "writable (step cfg (t, e) s) = (case e of Disk b \<Rightarrow> b | _ \<Rightarrow> writable s)"
proof (cases e)
  case (Submit req)
  show ?thesis
    by (cases rule: post_cases[of cfg t req s]) (simp_all add: step_def Submit)
next
  case (Fetch jid)
  then show ?thesis by (simp add: step_def get_frame)
next
  case (Poll k sample)
  show ?thesis
    by (cases rule: poll_cases[of t k sample s]) (simp_all add: step_def Poll leave_def)
next
  case (Exec k eps samples)
  show ?thesis
    by (cases rule: run_cases[of t k eps samples s]) (simp_all add: step_def Exec leave_def)
next
  case Sweep
  then show ?thesis by (simp add: step_def housekeeping_frame)
next
  case Restart
  show ?thesis
    by (cases rule: boot_cases[where t=t and s="fresh_process s"])
       (simp_all add: step_def Restart fresh_process_obs)
next
  case (Disk b)
  then show ?thesis by (simp add: step_def)
qed

lemma writable_run: "writable s \<Longrightarrow> writes_land evs \<Longrightarrow> writable (run cfg evs s)"
proof (induction evs arbitrary: s)
  case Nil
  then show ?case by (simp add: run_def)
next
  case (Cons te evs)
  obtain t e where te: "te = (t, e)" by (cases te)
  from Cons(2,3) have "writable (step cfg (t, e) s)"
    by (simp add: writable_step te split: event.splits)
  moreover from Cons(3) have "writes_land evs" by (simp add: te)
  ultimately have "writable (run cfg evs (step cfg (t, e) s))" by (rule Cons(1))
  then show ?case by (simp add: run_def te)
qed

lemma writable_first_start: "writable (first_start t)"
  by (simp add: first_start_def installed_def boot_def ensureDb_def readDb_def writeJsonAtomic_def
        default_stamped_def Let_def)

lemma ordered_run:
  "single_flight s \<Longrightarrow> ordered s \<Longrightarrow> writable s \<Longrightarrow> writes_land evs \<Longrightarrow> ordered (run cfg evs s)"
proof (induction evs arbitrary: s)
  case Nil
  then show ?case by (simp add: run_def)
next
  case (Cons te evs)
  obtain t e where te: "te = (t, e)" by (cases te)
  from Cons(4,5) have "writable (step cfg (t, e) s)"
    by (simp add: writable_step te split: event.splits)
  moreover from Cons(5) have "writes_land evs" by (simp add: te)
  moreover have "single_flight (step cfg (t, e) s)" using Cons(2) by (rule single_flight_step)
  moreover have "ordered (step cfg (t, e) s)" using Cons(2,3,4) by (rule ordered_step)
  ultimately have "ordered (run cfg evs (step cfg (t, e) s))" by (intro Cons(1))
  then show ?case by (simp add: run_def te)
qed

lemma ordered_first_start: "ordered (first_start t)"
  using ordered_boot[of installed t]
  by (simp add: first_start_def fresh_process_def installed_def ordered_def executing_def)

lemma outcome_first_poll: "outcome_first s \<Longrightarrow> outcome_first (processQueue_poll t k sample s)"
  by (cases rule: poll_cases[of t k sample s])
     (simp_all add: outcome_first_def precedes_append)

lemma outcome_first_run_step: "outcome_first s \<Longrightarrow> outcome_first (processQueue_run t k eps samples s)"
  by (cases rule: run_cases[of t k eps samples s])
     (auto simp: outcome_first_def precedes_append precedes_replicate)

lemma outcome_first_step: "outcome_first s \<Longrightarrow> outcome_first (step cfg te s)"
proof (cases te)
  case (Pair t e)
  assume o: "outcome_first s"
  show ?thesis
  proof (cases e)
    case (Submit req)
    show ?thesis
      using o by (cases rule: post_cases[of cfg t req s]) (simp_all add: Pair Submit step_def outcome_first_def)
  next
    case (Fetch jid) with Pair o show ?thesis by (simp add: step_def outcome_first_def get_frame)
  next
    case (Poll k sample) with Pair o show ?thesis by (simp add: step_def outcome_first_poll)
  next
    case (Exec k eps samples) with Pair o show ?thesis by (simp add: step_def outcome_first_run_step)
  next
    case Sweep with Pair o show ?thesis by (simp add: step_def outcome_first_def housekeeping_frame)
  next
    case Restart
    show ?thesis
      using o by (cases rule: boot_cases[where t=t and s="fresh_process s"])
                 (simp_all add: Pair Restart step_def outcome_first_def fresh_process_obs)
  next
    case (Disk b) with Pair o show ?thesis by (simp add: step_def outcome_first_def)
  qed
qed

lemma outcome_first_run: "outcome_first s \<Longrightarrow> outcome_first (run cfg evs s)"
  unfolding run_def by (induction evs arbitrary: s) (simp_all add: outcome_first_step)

lemma outcome_first_first_start: "outcome_first (first_start t)"
  using ordered_first_start[of t] by (simp add: outcome_first_def ordered_def)




section \<open>Order of service over restarts\<close>

lemma subseq_pop:
  assumes "subseq dq (j # rest)"
  shows "subseq (filter (\<lambda>q. jobId q \<noteq> jobId j) dq) rest"
proof -
  from assms have "subseq (filter (\<lambda>q. jobId q \<noteq> jobId j) dq) (filter (\<lambda>q. jobId q \<noteq> jobId j) (j # rest))"
    by (rule subseq_filter)
  then have "subseq (filter (\<lambda>q. jobId q \<noteq> jobId j) dq) (filter (\<lambda>q. jobId q \<noteq> jobId j) rest)"
    by simp
  then show ?thesis
    using subseq_filter_left[of "\<lambda>q. jobId q \<noteq> jobId j" rest] by (rule subseq_order.trans)
qed

lemma in_order_processQueue: "in_order s \<Longrightarrow> in_order (processQueue s)"
  by (simp add: in_order_def)

lemma in_order_post:
  assumes "in_order s" "writable s"
  shows "in_order (fst (post_cf_clearance_scraper cfg t req s))"
proof (cases rule: post_cases[of cfg t req s])
  case rejected
  then show ?thesis using assms by simp
next
  case (accepted enqueued)
  let ?s1 = "s \<lparr> requestQueue := requestQueue s @ [enqueued],
                issued := issued s @ [jobId enqueued],
                arrivals := arrivals s @ [enqueued],
                submitted := submitted s @ [enqueued],
                console := console s @ [LogJobQueued (jobId enqueued) (Suc (length (requestQueue s)))] \<rparr>"
  from assms have p: "is_parsed ?s1" and w: "writable ?s1" by (simp_all add: in_order_def)
  from assms(1) have "subseq ((begun s @ executing s @ requestQueue s) @ [enqueued]) (submitted s @ [enqueued])"
    by (simp only: subseq_append in_order_def)
  moreover from assms(1) have "subseq (queue (durable s) @ [enqueued]) (requestQueue s @ [enqueued])"
    by (simp only: subseq_append in_order_def)
  ultimately show ?thesis
    unfolding accepted(2)
    by (intro in_order_processQueue)
       (simp add: in_order_def durable_queueWriteDb[OF p w] updateFn_def is_parsed_queueWriteDb[OF p])
qed

lemma in_order_get:
  assumes "in_order s" "writable s"
  shows "in_order (fst (get_cf_clearance_result t jid s))"
proof -
  from assms(1) have p: "is_parsed s" by (simp add: in_order_def)
  from p show ?thesis
  proof (cases rule: get_cases[where s=s and t=t and jid=jid])
    case pending
    then show ?thesis using assms by simp
  next
    case delivered
    let ?s1 = "s \<lparr> resultsStore := AList.delete jid (resultsStore s) \<rparr>"
    from p assms(2) have p1: "is_parsed ?s1" and w: "writable ?s1" by simp_all
    from assms(1) have a: "subseq (queue (durable s)) (requestQueue s)" by (simp add: in_order_def)
    have "subseq (filter (\<lambda>q. jobId q \<noteq> jid) (queue (durable s))) (requestQueue s)"
      by (rule subseq_order.trans[OF subseq_filter_left a])
    then show ?thesis
      unfolding delivered(2) using assms(1)
      by (simp add: in_order_def durable_queueWriteDb[OF p1 w] updateFn_def is_parsed_queueWriteDb[OF p1])
  qed
qed

lemma in_order_poll:
  assumes "single_flight s" "in_order s" "writable s"
  shows "in_order (processQueue_poll t k sample s)"
  using assms(3)
proof (cases rule: poll_cases_w[where t=t and k=k and sample=sample])
  case idle
  then show ?thesis using assms by simp
next
  case broken
  from sole_worker[OF assms(1) broken(1)] broken(2) have ws: "k = 0" "workers s = [Polling]" by simp_all
  show ?thesis
    unfolding broken(4) using assms(2) ws
    by (simp add: in_order_def leave_def executing_def)
next
  case (popped j rest)
  from sole_worker[OF assms(1) popped(1)] popped(2) have ws: "k = 0" "workers s = [Polling]" by simp_all
  let ?s1 = "s \<lparr> requestQueue := rest, trace := trace s @ [Popped (jobId j)] \<rparr>"
  from assms have p: "is_parsed ?s1" and w: "writable ?s1" by (simp_all add: in_order_def)
  from assms(2) popped(3) have "subseq (filter (\<lambda>q. jobId q \<noteq> jobId j) (queue (durable s))) rest"
    by (intro subseq_pop) (simp add: in_order_def)
  then show ?thesis
    unfolding popped(4) using assms(2) popped(3) ws
    by (simp add: in_order_def executing_def durable_queueWriteDb[OF p w] updateFn_def
          is_parsed_queueWriteDb[OF p])
qed

lemma in_order_run_step:
  assumes "single_flight s" "in_order s" "writable s"
  shows "in_order (processQueue_run t k eps samples s)"
  using assms(3)
proof (cases rule: run_cases_w[where t=t and k=k and eps=eps and samples=samples])
  case idle
  then show ?thesis using assms by simp
next
  case (threw j rep)
  from sole_worker[OF assms(1) threw(1)] threw(2) have ws: "k = 0" "workers s = [Running j]" by simp_all
  show ?thesis
    unfolding threw(4) using assms(2) ws
    by (simp add: in_order_def leave_def executing_def)
next
  case (stored j rep result)
  from sole_worker[OF assms(1) stored(1)] stored(2) have ws: "k = 0" "workers s = [Running j]" by simp_all
  let ?s1 = "s \<lparr> console := console s @ lines rep,
                    started := started s @ [j],
                    begun := begun s @ [j],
                    resultsStore := AList.update (jobId j) result (resultsStore s) \<rparr>"
  from assms have p: "is_parsed ?s1" and w: "writable ?s1" by (simp_all add: in_order_def)
  show ?thesis
    unfolding stored(5) using assms(2) ws
    by (auto simp: in_order_def next_turn_def leave_def executing_def durable_queueWriteDb[OF p w] updateFn_def
          is_parsed_queueWriteDb[OF p])
qed

lemma in_order_housekeeping:
  assumes "in_order s" "writable s"
  shows "in_order (housekeeping cfg now s)"
proof -
  from assms(1) have p: "is_parsed s" by (simp add: in_order_def)
  from p show ?thesis
  proof (cases rule: housekeeping_cases[where s=s and cfg=cfg and now=now])
    case kept
    then show ?thesis using assms by simp
  next
    case (dropped mem')
    let ?s1 = "s \<lparr> resultsStore := mem' \<rparr>"
    from p assms(2) have p1: "is_parsed ?s1" and w: "writable ?s1" by simp_all
    show ?thesis
      unfolding dropped(3) using assms(1)
      by (simp add: in_order_def durable_queueWriteDb[OF p1 w] updateFn_def is_parsed_queueWriteDb[OF p1])
  qed
qed

lemma in_order_boot:
  assumes "in_order s"
  shows "in_order (boot t (fresh_process s))"
proof -
  from assms have p: "is_parsed (fresh_process s)" and p0: "is_parsed s"
    by (simp_all add: in_order_def fresh_process_obs)
  note r = readDb_parsed[OF p, of t] ensureDb_parsed[OF p, of t]
  from assms have "subseq (queue (durable s)) (executing s @ requestQueue s)"
    by (simp add: in_order_def subseq_drop_many)
  then have "subseq (begun s @ queue (durable s)) (begun s @ executing s @ requestQueue s)"
    by (simp only: subseq_append')
  with assms have o: "subseq (begun s @ queue (durable s)) (submitted s)"
    by (auto simp: in_order_def intro: subseq_order.trans)
  show ?thesis
  proof (cases rule: boot_cases[where t=t and s="fresh_process s"])
    case (empty d)
    show ?thesis
      unfolding empty(3)
      using o empty(1,2) p0 by (simp add: in_order_def r fresh_process_obs executing_def)
  next
    case (loaded d)
    show ?thesis
      unfolding loaded(3)
      using o loaded(1) p0
      by (intro in_order_processQueue) (simp add: in_order_def r fresh_process_obs executing_def)
  qed
qed

lemma in_order_step:
  assumes "single_flight s" "in_order s" "writable s"
  shows "in_order (step cfg te s)"
proof (cases te)
  case (Pair t e)
  show ?thesis
  proof (cases e)
    case (Submit req) with Pair assms show ?thesis by (simp add: step_def in_order_post)
  next
    case (Fetch jid) with Pair assms show ?thesis by (simp add: step_def in_order_get)
  next
    case (Poll k sample) with Pair assms show ?thesis by (simp add: step_def in_order_poll)
  next
    case (Exec k eps samples) with Pair assms show ?thesis by (simp add: step_def in_order_run_step)
  next
    case Sweep with Pair assms show ?thesis by (simp add: step_def in_order_housekeeping)
  next
    case Restart with Pair assms show ?thesis by (simp add: step_def in_order_boot)
  next
    case (Disk b) with Pair assms show ?thesis by (simp add: step_def in_order_def)
  qed
qed

lemma in_order_run:
  "single_flight s \<Longrightarrow> in_order s \<Longrightarrow> writable s \<Longrightarrow> writes_land evs \<Longrightarrow> in_order (run cfg evs s)"
proof (induction evs arbitrary: s)
  case Nil
  then show ?case by (simp add: run_def)
next
  case (Cons te evs)
  obtain t e where te: "te = (t, e)" by (cases te)
  from Cons(4,5) have "writable (step cfg (t, e) s)"
    by (simp add: writable_step te split: event.splits)
  moreover from Cons(5) have "writes_land evs" by (simp add: te)
  moreover have "single_flight (step cfg (t, e) s)" using Cons(2) by (rule single_flight_step)
  moreover have "in_order (step cfg (t, e) s)" using Cons(2,3,4) by (rule in_order_step)
  ultimately have "in_order (run cfg evs (step cfg (t, e) s))" by (intro Cons(1))
  then show ?case by (simp add: run_def te)
qed

lemma in_order_first_start: "in_order (first_start t)"
  by (simp add: first_start_def installed_def boot_def ensureDb_def readDb_def writeJsonAtomic_def
        default_stamped_def heal_def Let_def in_order_def is_parsed_def durable_def executing_def)

text \<open>From the first start on the file parses in every state, whether writes land or
  not: the catch branch of \<^verbatim>\<open>readDb\<close> is not entered again.\<close>

lemma is_parsed_step: "is_parsed s \<Longrightarrow> is_parsed (step cfg te s)"
proof (cases te)
  case (Pair t e)
  assume p: "is_parsed s"
  show ?thesis
  proof (cases e)
    case (Submit req)
    show ?thesis
      using p by (cases rule: post_cases[of cfg t req s]) (simp_all add: Pair Submit step_def)
  next
    case (Fetch jid)
    from p show ?thesis
      by (cases rule: get_cases[where s=s and t=t and jid=jid]) (simp_all add: Pair Fetch step_def p)
  next
    case (Poll k sample)
    show ?thesis
      using p by (cases rule: poll_cases[of t k sample s]) (simp_all add: Pair Poll step_def)
  next
    case (Exec k eps samples)
    show ?thesis
      using p by (cases rule: run_cases[of t k eps samples s]) (simp_all add: Pair Exec step_def)
  next
    case Sweep
    from p show ?thesis
      by (cases rule: housekeeping_cases[where s=s and cfg=cfg and now=t]) (simp_all add: Pair Sweep step_def p)
  next
    case Restart
    from p have q: "is_parsed (fresh_process s)" by (simp add: fresh_process_obs)
    show ?thesis
      by (cases rule: boot_cases[where t=t and s="fresh_process s"])
         (simp_all add: Pair Restart step_def readDb_parsed[OF q] ensureDb_parsed[OF q] q)
  next
    case (Disk b)
    with Pair p show ?thesis by (simp add: step_def)
  qed
qed

lemma is_parsed_run: "is_parsed s \<Longrightarrow> is_parsed (run cfg evs s)"
  unfolding run_def by (induction evs arbitrary: s) (simp_all add: is_parsed_step)

lemma is_parsed_first_start: "is_parsed (first_start t)"
  using in_order_first_start[of t] by (simp add: in_order_def)

lemma file_parses: "is_parsed (run cfg evs (first_start t0))"
  by (intro is_parsed_run is_parsed_first_start)




section \<open>Housekeeping, corrupt files, and configuration\<close>

lemma served_once_eval:
  "resultsStore served_once = [(''1001-ab'', JObj [(''success'', JBool False), (''code'', JNum 200),
                (''message'', JStr ''Failed after 5 retries''),
                (''queueLength'', JNum 0),
                (''cpu'', cpu_json (getCpuStats (idle 5)))])]"
  "results (durable served_once) = [(''1001-ab'', JObj [(''success'', JBool False), (''code'', JNum 200),
                (''message'', JStr ''Failed after 5 retries''),
                (''queueLength'', JNum 0),
                (''cpu'', cpu_json (getCpuStats (idle 5)))])]"
  "is_parsed served_once"
  by (simp_all add: served_once_def model_defs open_config_def source_post_def idle_def Let_def
        show_nat.simps digit_char_def give_up_example durable_def is_parsed_def)

lemma give_up_never_old:
  "\<not> too_old N now ttl (anchor_mem (JObj [(''success'', JBool False), (''code'', JNum 200),
                (''message'', m), (''queueLength'', q), (''cpu'', cpu_json c)]))"
  by (simp add: too_old_def anchor_mem_def result_ts_def js_or_def jget_def truthy_def cpu_json_def)

text \<open>The housekeeping does drop a result that carries a numeric \<^verbatim>\<open>finishedAt\<close> older
  than the TTL (15 minutes by default), from memory and from the file, and keeps a
  younger one.\<close>

lemma housekeeping_drops_stamped:
  "resultsStore (housekeeping open_config 1000000 stamped) = []
   \<and> results (durable (housekeeping open_config 1000000 stamped)) = []
   \<and> resultsStore (housekeeping open_config 900000 stamped) = resultsStore stamped"
  by (simp add: stamped_def housekeeping_def too_old_def anchor_mem_def anchor_db_def result_ts_def
        js_or_def jget_def truthy_def TTL_MS_def open_config_def Let_def writable_first_start
        queueWriteDb_def readDb_def writeJsonAtomic_def heal_def updateFn_def durable_def)

text \<open>No result of a job in a mode other than \<^verbatim>\<open>waf-session\<close> (whose payload is spread
  into the result and could bring a \<^verbatim>\<open>finishedAt\<close> of its own) is ever old enough for the
  housekeeping.\<close>

lemma unstamped_never_old:
  assumes "jget ''finishedAt'' r = JUndefined" "jget ''finishedAt'' (jget ''cpu'' r) = JUndefined"
  shows "\<not> too_old N now ttl (anchor_mem r)" "\<not> too_old N now ttl (anchor_db r)"
  using assms
  by (simp_all add: too_old_def anchor_mem_def anchor_db_def result_ts_def js_or_def truthy_def)

lemma processRequest_plain:
  assumes "jget ''mode'' d \<noteq> JStr ''waf-session''" "processRequest eps d = Inr result"
  shows "jget ''finishedAt'' (JObj (AList.update ''cpu'' (cpu_json c)
            (AList.update ''queueLength'' q (spread result [(''success'', JBool True)])))) = JUndefined
       \<and> jget ''finishedAt'' (jget ''cpu'' (JObj (AList.update ''cpu'' (cpu_json c)
            (AList.update ''queueLength'' q (spread result [(''success'', JBool True)]))))) = JUndefined"
  using assms
  by (auto simp: processRequest_def settle_def Let_def spread_def own_props_def jget_def cpu_json_def
           split: if_splits outcome.splits)

lemma retry_result_unstamped:
  assumes "jget ''mode'' d \<noteq> JStr ''waf-session''"
    "returned (retry_from eps samples qlen d n delay i) = Inr r"
  shows "jget ''finishedAt'' r = JUndefined \<and> jget ''finishedAt'' (jget ''cpu'' r) = JUndefined"
  using assms
proof (induction eps samples qlen d n delay i rule: retry_from.induct)
  case (1 eps samples qlen d maxRetry delay i)
  show ?case
  proof (cases "i < maxRetry")
    case False
    with 1(3) show ?thesis
      by (subst (asm) retry_from.simps) (auto simp: jget_def cpu_json_def)
  next
    case True
    show ?thesis
    proof (cases "processRequest (eps i) d")
      case (Inl e)
      with True 1(3) show ?thesis by (subst (asm) retry_from.simps) simp
    next
      case (Inr result)
      show ?thesis
      proof (cases "jget ''code'' result \<noteq> JNum 500")
        case ok: True
        with True Inr 1(3) have "r = JObj (AList.update ''cpu'' (cpu_json (getCpuStats (samples (Suc i))))
            (AList.update ''queueLength'' (JNum (of_nat qlen)) (spread result [(''success'', JBool True)])))"
          by (subst (asm) retry_from.simps) (simp add: Let_def)
        with processRequest_plain[OF 1(2) Inr] show ?thesis by simp
      next
        case fail: False
        with True Inr 1(3) have "returned (retry_from eps samples qlen d maxRetry delay (Suc i)) = Inr r"
          by (subst (asm) retry_from.simps) (simp add: Let_def)
        with 1(1)[OF True Inr refl _ 1(2)] fail show ?thesis by simp
      qed
    qed
  qed
qed

lemma recorded_result_never_old:
  assumes "jget ''mode'' d \<noteq> JStr ''waf-session''"
    "returned (retry_default eps samples qlen d) = Inr r"
  shows "\<not> too_old N now ttl (anchor_mem r) \<and> \<not> too_old N now ttl (anchor_db r)"
  using retry_result_unstamped[OF assms(1), of eps samples qlen 5 2000 0 r] assms(2) unstamped_never_old[of r N now ttl]
  by (simp add: retry_default_def retryUntilSuccessOrGiveUp_def)

text \<open>
  Claim C3 does not hold of the code. The result the worker records is what
  \<^verbatim>\<open>retryUntilSuccessOrGiveUp\<close> returns; it has no \<^verbatim>\<open>finishedAt\<close>, neither at the top nor
  under \<^verbatim>\<open>cpu\<close>, so the anchor of the housekeeping is 0 and the result is never dropped:
  for every configuration and at every later time the callback leaves the state with
  the recorded result unchanged, in memory and in the file.
\<close>

theorem C3_housekeeping_keeps_result:
  "map_of (resultsStore served_once) ''1001-ab'' =
     Some (JObj [(''success'', JBool False), (''code'', JNum 200),
                 (''message'', JStr ''Failed after 5 retries''),
                 (''queueLength'', JNum 0),
                 (''cpu'', cpu_json (getCpuStats (idle 5)))])
   \<and> jget ''finishedAt'' (JObj [(''success'', JBool False), (''code'', JNum 200),
                 (''message'', JStr ''Failed after 5 retries''),
                 (''queueLength'', JNum 0),
                 (''cpu'', cpu_json (getCpuStats (idle 5)))]) = JUndefined
   \<and> housekeeping cfg now served_once = served_once"
  by (simp add: served_once_eval housekeeping_def give_up_never_old jget_def)

text \<open>Claim C7 as stated fails in one point: \<^verbatim>\<open>readDb\<close> writes nothing to the console
  when it resets a corrupt file.\<close>

theorem C7_no_log_counterexample:
  "dbfile corrupted = Corrupt ''{ \"queue\": [''
   \<and> console (fst (readDb 1000 corrupted)) = console corrupted"
  by (simp add: corrupted_def installed_def readDb_def writeJsonAtomic_def Let_def)

text \<open>
  Claim C7, amended. On a file that does not parse, \<^verbatim>\<open>readDb\<close> at time \<open>t\<close> copies the
  content to the backup named by \<open>t\<close> and leaves the backups under other names alone,
  writes the content of \<^verbatim>\<open>DEFAULT_DB\<close> stamped with \<open>t\<close>, returns \<^verbatim>\<open>DEFAULT_DB\<close> with
  its unstamped meta, and logs nothing; a process that starts on such a file comes up
  with an empty queue, no results, an empty stored snapshot, and the backup.
\<close>

theorem C7_corrupt_read:
  assumes "dbfile s = Corrupt raw"
  shows "map_of (backups (fst (readDb t s))) t = Some raw
       \<and> (\<forall>t'. t' \<noteq> t \<longrightarrow> map_of (backups (fst (readDb t s))) t' = map_of (backups s) t')
       \<and> dbfile (fst (readDb t s)) =
           Parsed \<lparr> p_queue = Some (DEFAULT_queue s), p_results = Some (DEFAULT_results s),
                    p_meta = Some \<lparr> version = 1, lastWriteAt = Some t \<rparr> \<rparr>
       \<and> fst (snd (readDb t s)) =
           \<lparr> queue = DEFAULT_queue s, results = DEFAULT_results s, meta = \<lparr> version = 1, lastWriteAt = None \<rparr> \<rparr>
       \<and> console (fst (readDb t s)) = console s
       \<and> is_parsed (boot t (fresh_process s))
       \<and> requestQueue (boot t (fresh_process s)) = []
       \<and> resultsStore (boot t (fresh_process s)) = []
       \<and> durable (boot t (fresh_process s)) = \<lparr> queue = [], results = [], meta = \<lparr> version = 1, lastWriteAt = Some t \<rparr> \<rparr>
       \<and> map_of (backups (boot t (fresh_process s))) t = Some raw"
  using assms
  by (simp add: readDb_def writeJsonAtomic_def default_stamped_def DEFAULT_meta_def Let_def update_conv'
        boot_def ensureDb_def fresh_process_def is_parsed_def durable_def heal_def)

theorem C7_corrupt_read_witness:
  "map_of (backups (fst (readDb 1000 corrupted))) 1000 = Some ''{ \"queue\": [''
   \<and> dbfile (fst (readDb 1000 corrupted)) =
           Parsed \<lparr> p_queue = Some [], p_results = Some [],
                    p_meta = Some \<lparr> version = 1, lastWriteAt = Some 1000 \<rparr> \<rparr>
   \<and> fst (snd (readDb 1000 corrupted)) =
           \<lparr> queue = [], results = [], meta = \<lparr> version = 1, lastWriteAt = None \<rparr> \<rparr>
   \<and> console (fst (readDb 1000 corrupted)) = []
   \<and> requestQueue (boot 1000 (fresh_process corrupted)) = []
   \<and> resultsStore (boot 1000 (fresh_process corrupted)) = []"
proof -
  have h: "dbfile corrupted = Corrupt ''{ \"queue\": [''" by (simp add: corrupted_def)
  have d: "DEFAULT_queue corrupted = []" "DEFAULT_results corrupted = []" "console corrupted = []"
    by (simp_all add: corrupted_def installed_def)
  from C7_corrupt_read[OF h, of 1000] d show ?thesis by simp
qed

text \<open>The shallow copy at work: a submission that finds the file corrupt leaves its job
  in \<^verbatim>\<open>DEFAULT_DB.queue\<close>, and a later corrupt read in the same process writes and returns
  that job as part of the ``default''.\<close>

lemma shared_default_example:
  "DEFAULT_queue (step open_config (1001, Submit source_post) corrupted) =
     [\<lparr> data = source_request, jobId = ''1001-ab'', enqueuedAt = 1001 \<rparr>]
   \<and> queue (fst (snd (readDb 1002
        ((step open_config (1001, Submit source_post) corrupted) \<lparr> dbfile := Corrupt ''again'' \<rparr>)))) =
     [\<lparr> data = source_request, jobId = ''1001-ab'', enqueuedAt = 1001 \<rparr>]"
  by (simp add: corrupted_def model_defs open_config_def source_post_def Let_def
        show_nat.simps digit_char_def)

lemma queued_once_eval:
  "requestQueue queued_once = [\<lparr> data = source_request, jobId = ''1001-ab'', enqueuedAt = 1001 \<rparr>]"
  "workers queued_once = [Polling]"
  "writable queued_once"
  by (simp_all add: queued_once_def model_defs open_config_def source_post_def Let_def
        show_nat.simps digit_char_def)

lemma give_up_slept:
  "slept (retry_default always_timeout idle 0 source_request) = 10000"
proof -
  have "\<forall>k. 0 \<le> k \<and> k < 5 \<longrightarrow> (\<exists>r. processRequest (always_timeout k) source_request = Inr r \<and> jget ''code'' r = JNum 500)"
    by (simp add: always_timeout_source jget_def)
  from retry_from_all_fail[OF this, of idle 0 2000]
  show ?thesis by (simp add: retry_default_def retryUntilSuccessOrGiveUp_def)
qed

lemma loaded_sample_admitted: "canProcessNow loaded_sample"
  by (simp add: canProcessNow_def getCpuStats_def loaded_sample_def vCPU_def cpuThreshold_def)

text \<open>
  Claim C9 as stated fails: with an environment that asks for a threshold of 0.5, two
  cores, one attempt and a delay of 100 ms, a loop is still admitted at 240 percent CPU
  (a fraction of 0.6 on four cores, 1.2 on two), and a job whose attempts all fail is
  still tried five times with 2000 ms after each.
\<close>

theorem C9_env_ignored_counterexample:
  "env tuned_config ''cpuThreshold'' = Some ''0.5''
   \<and> env tuned_config ''vCPU'' = Some ''2''
   \<and> env tuned_config ''maxRetry'' = Some ''1''
   \<and> env tuned_config ''retryDelay'' = Some ''100''
   \<and> cpu loaded_sample / (100 * 4) \<ge> 1 / 2
   \<and> cpu loaded_sample / (100 * 2) \<ge> 85 / 100
   \<and> workers (step tuned_config (1002, Poll 0 loaded_sample) queued_once) =
        [Running \<lparr> data = source_request, jobId = ''1001-ab'', enqueuedAt = 1001 \<rparr>]
   \<and> trace (step tuned_config (1003, Exec 0 always_timeout idle)
              (step tuned_config (1002, Poll 0 loaded_sample) queued_once)) =
        [Popped ''1001-ab'', RemovalPersisted ''1001-ab'',
         Invoked ''1001-ab'', Invoked ''1001-ab'', Invoked ''1001-ab'', Invoked ''1001-ab'', Invoked ''1001-ab'',
         OutcomeComputed ''1001-ab'', ResultCached ''1001-ab'', ResultPersisted ''1001-ab'']
   \<and> slept (retry_default always_timeout idle 0 source_request) = 10000"
proof -
  have e: "env tuned_config ''cpuThreshold'' = Some ''0.5''" "env tuned_config ''vCPU'' = Some ''2''"
    "env tuned_config ''maxRetry'' = Some ''1''" "env tuned_config ''retryDelay'' = Some ''100''"
    by (simp_all add: tuned_config_def)
  have c: "cpu loaded_sample / (100 * 4) \<ge> 1 / 2" "cpu loaded_sample / (100 * 2) \<ge> 85 / 100"
    by (simp_all add: loaded_sample_def)
  have t0: "trace queued_once = []"
    by (simp add: queued_once_def model_defs open_config_def source_post_def Let_def)
  have w: "workers (step tuned_config (1002, Poll 0 loaded_sample) queued_once) =
        [Running \<lparr> data = source_request, jobId = ''1001-ab'', enqueuedAt = 1001 \<rparr>]"
    and q: "requestQueue (step tuned_config (1002, Poll 0 loaded_sample) queued_once) = []"
    and t1: "trace (step tuned_config (1002, Poll 0 loaded_sample) queued_once) =
        [Popped ''1001-ab'', RemovalPersisted ''1001-ab'']"
    and wr: "writable (step tuned_config (1002, Poll 0 loaded_sample) queued_once)"
    by (simp_all add: step_def processQueue_poll_def queued_once_eval loaded_sample_admitted Let_def t0)
  have t2: "trace (step tuned_config (1003, Exec 0 always_timeout idle)
              (step tuned_config (1002, Poll 0 loaded_sample) queued_once)) =
        [Popped ''1001-ab'', RemovalPersisted ''1001-ab'',
         Invoked ''1001-ab'', Invoked ''1001-ab'', Invoked ''1001-ab'', Invoked ''1001-ab'', Invoked ''1001-ab'',
         OutcomeComputed ''1001-ab'', ResultCached ''1001-ab'', ResultPersisted ''1001-ab'']"
  proof -
    have r5: "replicate 5 (Invoked ''1001-ab'') =
        [Invoked ''1001-ab'', Invoked ''1001-ab'', Invoked ''1001-ab'', Invoked ''1001-ab'', Invoked ''1001-ab'']"
      by (simp add: numeral_eq_Suc)
    show ?thesis
      by (subst step_def)
         (simp add: processQueue_run_def w q t1 wr Let_def give_up_example next_turn_def leave_def r5)
  qed
  from e c w t2 give_up_slept show ?thesis by blast
qed

text \<open>
  Claim C9, amended. The threshold 0.85, the core count 4, the retry maximum 5 and the
  retry delay 2000 ms are constants of the code: the admission decision is
  \<open>cpu / (100 * 4) < 0.85\<close>, the worker calls \<^verbatim>\<open>retryUntilSuccessOrGiveUp\<close> with its
  defaults, and a step of the worker loop is the same under every environment.
\<close>

theorem C9_constants:
  "canProcessNow sample = (cpu sample / (100 * 4) < 85 / 100)
   \<and> step (cfg \<lparr> env := e \<rparr>) (t, Poll k sample) s = step cfg (t, Poll k sample) s
   \<and> step (cfg \<lparr> env := e \<rparr>) (t, Exec k eps samples) s = step cfg (t, Exec k eps samples) s
   \<and> retry_default eps samples qlen d = retryUntilSuccessOrGiveUp eps samples qlen d 5 2000
   \<and> ((\<forall>i. i < 5 \<longrightarrow> (\<exists>r. processRequest (eps i) d = Inr r \<and> jget ''code'' r = JNum 500)) \<longrightarrow>
        invocations (retry_default eps samples qlen d) = 5
        \<and> slept (retry_default eps samples qlen d) = 5 * 2000)"
proof -
  have "invocations (retry_default eps samples qlen d) = 5
        \<and> slept (retry_default eps samples qlen d) = 5 * 2000"
    if "\<forall>i. i < 5 \<longrightarrow> (\<exists>r. processRequest (eps i) d = Inr r \<and> jget ''code'' r = JNum 500)"
  proof -
    from that have "\<forall>k. 0 \<le> k \<and> k < 5 \<longrightarrow> (\<exists>r. processRequest (eps k) d = Inr r \<and> jget ''code'' r = JNum 500)"
      by simp
    from retry_from_all_fail[OF this, of samples qlen 2000]
    show ?thesis by (simp add: retry_default_def retryUntilSuccessOrGiveUp_def)
  qed
  moreover have "canProcessNow sample = (cpu sample / (100 * 4) < 85 / 100)"
    by (simp add: canProcessNow_def getCpuStats_def vCPU_def cpuThreshold_def Let_def)
  moreover have "step (cfg \<lparr> env := e \<rparr>) (t, Poll k sample) s = step cfg (t, Poll k sample) s"
    "step (cfg \<lparr> env := e \<rparr>) (t, Exec k eps samples) s = step cfg (t, Exec k eps samples) s"
    by (simp_all add: step_def)
  moreover have "retry_default eps samples qlen d = retryUntilSuccessOrGiveUp eps samples qlen d 5 2000"
    by (simp add: retry_default_def)
  ultimately show ?thesis by blast
qed

theorem C9_constants_witness:
  "canProcessNow loaded_sample
   \<and> step (open_config \<lparr> env := env tuned_config \<rparr>) (1002, Poll 0 loaded_sample) queued_once
       = step open_config (1002, Poll 0 loaded_sample) queued_once
   \<and> invocations (retry_default always_timeout idle 0 source_request) = 5
   \<and> slept (retry_default always_timeout idle 0 source_request) = 5 * 2000"
proof -
  have h: "\<forall>i. i < 5 \<longrightarrow> (\<exists>r. processRequest (always_timeout i) source_request = Inr r \<and> jget ''code'' r = JNum 500)"
    by (simp add: always_timeout_source jget_def)
  from C9_constants[where sample=loaded_sample and cfg=open_config and e="env tuned_config" and t=1002
        and k=0 and s=queued_once and eps=always_timeout and samples=idle and qlen=0 and d=source_request]
    h loaded_sample_admitted
  show ?thesis by blast
qed

section \<open>The consuming read, in a run\<close>

lemma consumed_post:
  assumes "tidy s" "consumed s jid"
  shows "consumed (fst (post_cf_clearance_scraper cfg t req s)) jid"
proof (cases rule: post_cases[of cfg t req s])
  case rejected
  then show ?thesis using assms by simp
next
  case (accepted enqueued)
  let ?s1 = "s \<lparr> requestQueue := requestQueue s @ [enqueued],
                issued := issued s @ [jobId enqueued],
                arrivals := arrivals s @ [enqueued],
                submitted := submitted s @ [enqueued],
                console := console s @ [LogJobQueued (jobId enqueued) (Suc (length (requestQueue s)))] \<rparr>"
  from assms(1) have p: "is_parsed ?s1" and w: "writable ?s1" by (simp_all add: tidy_def tidy_obs_def)
  show ?thesis
    unfolding accepted(2) consumed_def using assms(2)
    by (simp add: durable_queueWriteDb[OF p w] updateFn_def resultsStore_queueWriteDb consumed_def)
qed

lemma consumed_get:
  assumes "tidy s" "consumed s jid"
  shows "consumed (fst (get_cf_clearance_result t jid' s)) jid"
proof -
  from assms(1) have p: "is_parsed s" by (simp add: tidy_def tidy_obs_def)
  from p show ?thesis
  proof (cases rule: get_cases[where s=s and t=t and jid=jid'])
    case pending
    then show ?thesis using assms by simp
  next
    case delivered
    let ?s1 = "s \<lparr> resultsStore := AList.delete jid' (resultsStore s) \<rparr>"
    from p have p1: "is_parsed ?s1" by simp
    from assms(1) have w: "writable ?s1" by (simp add: tidy_def tidy_obs_def)
    show ?thesis
      unfolding delivered(2) consumed_def using assms(2)
      by (simp add: durable_queueWriteDb[OF p1 w] updateFn_def resultsStore_queueWriteDb consumed_def keys_delete)
  qed
qed

lemma consumed_poll:
  assumes "tidy s" "consumed s jid"
  shows "consumed (processQueue_poll t k sample s) jid"
proof -
  from assms(1) have w0: "writable s" by (simp add: tidy_def tidy_obs_def)
  from w0 show ?thesis
  proof (cases rule: poll_cases_w[where t=t and k=k and sample=sample])
  case idle
  then show ?thesis using assms by simp
next
  case broken
  show ?thesis unfolding broken(4) using assms(2) by (simp add: consumed_def)
next
  case (popped j rest)
  let ?s1 = "s \<lparr> requestQueue := rest, trace := trace s @ [Popped (jobId j)] \<rparr>"
  from assms(1) have p: "is_parsed ?s1" and w: "writable ?s1" by (simp_all add: tidy_def tidy_obs_def)
  show ?thesis
    unfolding popped(4) consumed_def using assms(2)
    by (simp add: durable_queueWriteDb[OF p w] updateFn_def resultsStore_queueWriteDb consumed_def)
  qed
qed

lemma consumed_run_step:
  assumes "single_flight s" "tidy s" "consumed s jid"
  shows "consumed (processQueue_run t k eps samples s) jid"
proof -
  from assms(2) have w0: "writable s" by (simp add: tidy_def tidy_obs_def)
  from w0 show ?thesis
  proof (cases rule: run_cases_w[where t=t and k=k and eps=eps and samples=samples])
  case idle
  then show ?thesis using assms by simp
next
  case (threw j rep)
  show ?thesis unfolding threw(4) using assms(3) by (simp add: consumed_def)
next
  case (stored j rep result)
  from sole_worker[OF assms(1) stored(1)] stored(2) have ws: "workers s = [Running j]" by simp
  from assms(2) executing_sole(2)[OF ws] have "jobId j \<notin> set (persisted_ids (trace s))"
    by (simp add: tidy_def tidy_obs_def)
  with assms(3) have ne: "jobId j \<noteq> jid" by (auto simp: consumed_def)
  let ?s1 = "s \<lparr> console := console s @ lines rep,
                    started := started s @ [j],
                    begun := begun s @ [j],
                    resultsStore := AList.update (jobId j) result (resultsStore s) \<rparr>"
  from assms(2) have p: "is_parsed ?s1" and w: "writable ?s1" by (simp_all add: tidy_def tidy_obs_def)
  show ?thesis
    unfolding stored(5) consumed_def using assms(3) ne
    by (simp add: durable_queueWriteDb[OF p w] updateFn_def resultsStore_queueWriteDb consumed_def keys_update)
  qed
qed

lemma consumed_housekeeping:
  assumes "tidy s" "consumed s jid"
  shows "consumed (housekeeping cfg now s) jid"
proof -
  from assms(1) have p: "is_parsed s" by (simp add: tidy_def tidy_obs_def)
  from p show ?thesis
  proof (cases rule: housekeeping_cases[where s=s and cfg=cfg and now=now])
    case kept
    then show ?thesis using assms by simp
  next
    case (dropped mem')
    let ?s1 = "s \<lparr> resultsStore := mem' \<rparr>"
    from p have p1: "is_parsed ?s1" by simp
    from assms(1) have w: "writable ?s1" by (simp add: tidy_def tidy_obs_def)
    from drop_old_keeps[of "\<lambda>r. too_old (ToNumber cfg) now (TTL_MS cfg) (anchor_db r)" "results (durable s)" "results (durable s)"]
    have "keys (foldl (\<lambda>acc (jid, res).
                         if too_old (ToNumber cfg) now (TTL_MS cfg) (anchor_db res) then AList.delete jid acc else acc)
                      (results (durable s)) (results (durable s))) \<subseteq> keys (results (durable s))" by simp
    then show ?thesis
      unfolding dropped(3) consumed_def using assms(2) dropped(1)
      by (auto simp: durable_queueWriteDb[OF p1 w] updateFn_def resultsStore_queueWriteDb consumed_def)
  qed
qed

lemma consumed_boot:
  assumes "tidy s" "consumed s jid"
  shows "consumed (boot t (fresh_process s)) jid"
proof -
  from assms(1) have p: "is_parsed (fresh_process s)" and p0: "is_parsed s"
    by (simp_all add: tidy_def tidy_obs_def fresh_process_obs)
  note r = readDb_parsed[OF p, of t] ensureDb_parsed[OF p, of t]
  show ?thesis
  proof (cases rule: boot_cases[where t=t and s="fresh_process s"])
    case (empty d)
    show ?thesis
      unfolding empty(3) consumed_def using assms(2) empty(1) p0
      by (simp add: r fresh_process_obs consumed_def)
  next
    case (loaded d)
    show ?thesis
      unfolding loaded(3) consumed_def using assms(2) loaded(1) p0
      by (simp add: r fresh_process_obs consumed_def)
  qed
qed

lemma consumed_step:
  assumes "single_flight s" "tidy s" "consumed s jid"
  shows "consumed (step cfg te s) jid"
proof (cases te)
  case (Pair t e)
  show ?thesis
  proof (cases e)
    case (Submit req) with Pair assms show ?thesis by (simp add: step_def consumed_post)
  next
    case (Fetch jid') with Pair assms show ?thesis by (simp add: step_def consumed_get)
  next
    case (Poll k sample) with Pair assms show ?thesis by (simp add: step_def consumed_poll)
  next
    case (Exec k eps samples) with Pair assms show ?thesis by (simp add: step_def consumed_run_step)
  next
    case Sweep with Pair assms show ?thesis by (simp add: step_def consumed_housekeeping)
  next
    case Restart with Pair assms show ?thesis by (simp add: step_def consumed_boot)
  next
    case (Disk b) with Pair assms show ?thesis by (simp add: step_def consumed_def)
  qed
qed

lemma consumed_run:
  "single_flight s \<Longrightarrow> tidy s \<Longrightarrow> writes_land evs \<Longrightarrow> fresh_ids cfg evs s \<Longrightarrow> consumed s jid
   \<Longrightarrow> consumed (run cfg evs s) jid \<and> tidy (run cfg evs s)"
proof (induction evs arbitrary: s)
  case Nil
  then show ?case by (simp add: run_def)
next
  case (Cons te evs)
  obtain t e where te: "te = (t, e)" by (cases te)
  from Cons(5) have f: "case e of Submit req \<Rightarrow> show_nat t @ ''-'' @ rnd req \<notin> set (issued s) | _ \<Rightarrow> True"
    and rest: "fresh_ids cfg evs (step cfg (t, e) s)"
    by (simp_all add: te)
  from Cons(4) have l: "case e of Disk b \<Rightarrow> b | _ \<Rightarrow> True" and lrest: "writes_land evs"
    by (simp_all add: te)
  have "tidy (step cfg (t, e) s)" using Cons(2,3) f l by (intro tidy_step) (simp_all split: event.splits)
  moreover have "single_flight (step cfg (t, e) s)" using Cons(2) by (rule single_flight_step)
  moreover have "consumed (step cfg (t, e) s) jid" using Cons(2,3,6) by (rule consumed_step)
  ultimately have "consumed (run cfg evs (step cfg (t, e) s)) jid \<and> tidy (run cfg evs (step cfg (t, e) s))"
    using rest lrest by (intro Cons(1))
  then show ?case by (simp add: run_def te)
qed

lemma consumed_pending:
  assumes "tidy s" "consumed s jid"
  shows "get_cf_clearance_result t jid s = (s, \<lparr> status = 200, payload = pending_body \<rparr>)"
proof -
  from assms(1) obtain p where p: "dbfile s = Parsed p"
    by (auto simp: tidy_def tidy_obs_def is_parsed_def split: dbfile.splits)
  then have d: "durable s = heal p" by (simp add: durable_def)
  from assms(2) have "map_of (resultsStore s) jid = None" "map_of (results (heal p)) jid = None"
    by (simp_all add: consumed_def keys_map_of d)
  with p show ?thesis by (intro get_absent)
qed

lemma delivery_consumes:
  assumes "tidy s" "resolved s jid"
  shows "consumed (fst (get_cf_clearance_result t jid s)) jid"
proof -
  from assms(1) have p: "is_parsed s" by (simp add: tidy_def tidy_obs_def)
  from assms(2) have k: "jid \<in> keys (resultsStore s) \<union> keys (results (durable s))"
    by (auto simp: resolved_def held_def keys_map_of split: option.splits)
  with assms(1) have per: "jid \<in> set (persisted_ids (trace s))"
    by (auto simp: tidy_def tidy_obs_def)
  from get_first[OF assms(2), of t] obtain s1 where
    s1: "fst (get_cf_clearance_result t jid s) = queueWriteDb t (TakeResult jid) s1"
        "map_of (resultsStore s1) jid = None"
    by blast
  have "trace (fst (get_cf_clearance_result t jid s)) = trace s" by (rule get_frame)
  moreover have "map_of (resultsStore (fst (get_cf_clearance_result t jid s))) jid = None"
    using s1 by (simp add: resultsStore_queueWriteDb)
  moreover have "writable (fst (get_cf_clearance_result t jid s))"
    using assms(1) by (simp add: get_frame tidy_def tidy_obs_def)
  then have "writable s1" using s1 by simp
  then have "map_of (results (durable (fst (get_cf_clearance_result t jid s)))) jid = None"
    using s1 by (simp add: durable_queueWriteDb_TakeResult)
  ultimately show ?thesis using per by (simp add: consumed_def keys_map_of)
qed

lemma served_disk_full_eval:
  "served_disk_full = served_once \<lparr> writable := False \<rparr>"
  by (simp add: served_disk_full_def step_def)

lemma first_read_disk_full:
  "get_cf_clearance_result 2000 ''1001-ab'' served_disk_full =
     (served_once \<lparr> writable := False, resultsStore := [],
                    console := console served_once @ [LogDbWriteError] \<rparr>,
      \<lparr> status = 200, payload = gave_up 0 \<rparr>)"
  by (simp add: served_disk_full_eval get_cf_clearance_result_def held_def served_once_eval truthy_def
        queueWriteDb_def Let_def gave_up_def)



lemma served_events_lands: "writes_land served_events"
  by (simp add: served_events_def)

lemma later_events_lands: "writes_land later_events"
  by (simp add: later_events_def)

lemma served_events_fresh: "fresh_ids open_config served_events (first_start 1000)"
  by (simp add: served_events_def issued_step open_config_accepts issued_first_start
        source_post_def show_nat.simps digit_char_def)

lemma served_once_issued: "issued served_once = [''1001-ab'']"
  by (simp add: served_once_def run_def issued_step open_config_accepts issued_first_start
        source_post_def show_nat.simps digit_char_def)

lemma later_events_fresh:
  "fresh_ids open_config later_events (fst (get_cf_clearance_result 2000 ''1001-ab'' served_once))"
  by (simp add: later_events_def issued_step open_config_accepts get_frame served_once_issued
        second_post_def show_nat.simps digit_char_def)

lemma served_once_writable: "writable served_once"
  unfolding served_once_def
  by (intro writable_run writable_first_start) simp


end
